theory Spec2Isabelle
  imports Main "HOL-Library.Word" "HOL-Library.Sublist"
begin

section \<open>The download transport of the Jira ticket extractor\<close>

text \<open>
  A shallow embedding of the streaming handler of \<^verbatim>\<open>background.js\<close> (the Privileged
  Fetch Service), of \<^verbatim>\<open>downloadFileViaBackground\<close>, \<^verbatim>\<open>downloadFileViaXHR\<close>,
  \<^verbatim>\<open>downloadFileViaBackgroundBlob\<close> and \<^verbatim>\<open>downloadFile\<close> of \<^verbatim>\<open>extractor.js\<close> (the
  Requester and its strategy cascade), and of the attachment naming loop of
  \<^verbatim>\<open>extractTicket\<close>.

  JavaScript runs each handler to its next \<^verbatim>\<open>await\<close> without interruption. An
  asynchronous handler is therefore a state machine whose state holds the local variables
  and the point where it waits, and whose steps are the events of the event loop: a
  promise settling, a message arriving, a port disconnecting, a timer firing.

  The port between the two contexts is taken to deliver every posted message unchanged and
  in the order of posting.
\<close>

subsection \<open>Bytes and messages of the channel\<close>

type_synonym bytes = "8 word list"

text \<open>
  The messages on the port \<^verbatim>\<open>downloadFileStream\<close>. JavaScript objects have no fixed
  shape, so a field that a message does not carry is \<open>None\<close> (\<^verbatim>\<open>undefined\<close>).
\<close>

record message =
  mtype :: string
  requestId :: string
  chunk :: "bytes option"
  contentType :: "string option"
  error :: "string option"

definition chunk_message :: "string \<Rightarrow> bytes \<Rightarrow> message" where
  \<comment> \<open>\<^verbatim>\<open>{ type: 'chunk', requestId, chunk: slice, done: false }\<close>\<close>
  "chunk_message rid b =
     \<lparr>mtype = ''chunk'', requestId = rid, chunk = Some b, contentType = None, error = None\<rparr>"

definition complete_message :: "string \<Rightarrow> string \<Rightarrow> message" where
  \<comment> \<open>\<^verbatim>\<open>{ type: 'complete', requestId, contentType }\<close>\<close>
  "complete_message rid ct =
     \<lparr>mtype = ''complete'', requestId = rid, chunk = None, contentType = Some ct, error = None\<rparr>"

definition error_message :: "string \<Rightarrow> string \<Rightarrow> message" where
  \<comment> \<open>\<^verbatim>\<open>{ type: 'error', requestId, error: error.message || 'Download failed' }\<close>\<close>
  "error_message rid e =
     \<lparr>mtype = ''error'', requestId = rid, chunk = None, contentType = None,
      error = Some (if e = [] then ''Download failed'' else e)\<rparr>"

subsection \<open>The Privileged Fetch Service: the streaming handler of background.js\<close>

definition MAX_CHUNK_SIZE :: nat where
  "MAX_CHUNK_SIZE = 64 * 1024"

text \<open>What the handler reads of a \<^verbatim>\<open>Response\<close>.\<close>

record response =
  ok :: bool
  status :: nat
  statusText :: string
  rtype :: string
  content_type_header :: "string option"
  has_body :: bool

text \<open>\<^verbatim>\<open>{ done, value }\<close> of \<^verbatim>\<open>reader.read()\<close>.\<close>

datatype read_result = ReadDone | ReadValue "bytes option"

text \<open>
  The events the handler waits for. A promise settles with \<open>Inr\<close> its value or is rejected
  with \<open>Inl\<close> the message of the error. \<open>Disconnect\<close> is the port's \<^verbatim>\<open>onDisconnect\<close>.
\<close>

datatype event =
    Disconnect
  | FetchSettled "string + response"
  | ReadSettled "string + read_result"

text \<open>What the handler does to the world, in order.\<close>

datatype effect =
    Fetch string "string option"
  | PostMessage message
  | Abort

datatype pc = AwaitFetch1 | AwaitFetch2 | AwaitRead | Finished

record fetcher =
  pc :: pc
  f_url :: string
  f_requestId :: string
  f_contentType :: string
  disconnected :: bool
  effects :: "effect list"

text \<open>
  \<^verbatim>\<open>port.postMessage\<close>: Chrome raises \<^verbatim>\<open>Attempting to use a disconnected port object\<close>
  on a port that has disconnected, and posts nothing. The handler's flag
  \<^verbatim>\<open>disconnected\<close> is set by the port's \<^verbatim>\<open>onDisconnect\<close> listener, registered before
  the first \<^verbatim>\<open>await\<close>, so the flag tells whether the port has disconnected.
\<close>

definition postMessage :: "fetcher \<Rightarrow> message \<Rightarrow> string + fetcher" where
  "postMessage s m =
     (if disconnected s then Inl ''Attempting to use a disconnected port object''
      else Inr (s\<lparr>effects := effects s @ [PostMessage m]\<rparr>))"

text \<open>\<^verbatim>\<open>finally { port.onDisconnect.removeListener(disconnectHandler); }\<close>\<close>

definition finally_block :: "fetcher \<Rightarrow> fetcher" where
  "finally_block s = s\<lparr>pc := Finished\<rparr>"

text \<open>\<^verbatim>\<open>catch (error) { if (!disconnected) port.postMessage({ type: 'error', ... }) }\<close>\<close>

definition catch_block :: "fetcher \<Rightarrow> string \<Rightarrow> fetcher" where
  "catch_block s e =
     finally_block (if \<not> disconnected s
              then (case postMessage s (error_message (f_requestId s) e) of
                      Inr s' \<Rightarrow> s' | Inl _ \<Rightarrow> s)
              else s)"

text \<open>\<^verbatim>\<open>buffer.slice(begin, end)\<close> of an \<^verbatim>\<open>ArrayBuffer\<close>: the end is clamped.\<close>

definition slice :: "bytes \<Rightarrow> nat \<Rightarrow> nat \<Rightarrow> bytes" where
  "slice b from until = take (until - from) (drop from b)"

text \<open>
  \<^verbatim>\<open>for (let offset = 0; offset < baseBuffer.byteLength; offset += MAX_CHUNK_SIZE) {
    if (disconnected) break;
    const slice = baseBuffer.slice(offset, offset + MAX_CHUNK_SIZE);
    port.postMessage({ type: 'chunk', requestId, chunk: slice, done: false }, [slice]); }\<close>
\<close>

function slice_loop :: "fetcher \<Rightarrow> bytes \<Rightarrow> nat \<Rightarrow> string + fetcher" where
  "slice_loop s baseBuffer offset =
     (if offset < length baseBuffer then
        (if disconnected s then Inr s
         else (case postMessage s (chunk_message (f_requestId s)
                       (slice baseBuffer offset (offset + MAX_CHUNK_SIZE))) of
                 Inl e \<Rightarrow> Inl e
               | Inr s' \<Rightarrow> slice_loop s' baseBuffer (offset + MAX_CHUNK_SIZE)))
      else Inr s)"
  by pat_completeness auto
termination
  by (relation "measure (\<lambda>(s, b, offset). length b - offset)")
     (auto simp: MAX_CHUNK_SIZE_def)

declare slice_loop.simps [simp del]

text \<open>The body of the \<^verbatim>\<open>while\<close> loop for a read that carries a value.\<close>

definition relay :: "fetcher \<Rightarrow> bytes \<Rightarrow> string + fetcher" where
  "relay s baseBuffer =
     (if length baseBuffer > MAX_CHUNK_SIZE then slice_loop s baseBuffer 0
      else postMessage s (chunk_message (f_requestId s) baseBuffer))"

text \<open>After the loop: \<^verbatim>\<open>if (!disconnected) port.postMessage({ type: 'complete', ... })\<close>.\<close>

definition after_loop :: "fetcher \<Rightarrow> fetcher" where
  "after_loop s =
     (if \<not> disconnected s
      then (case postMessage s (complete_message (f_requestId s) (f_contentType s)) of
              Inr s' \<Rightarrow> finally_block s' | Inl e \<Rightarrow> catch_block s e)
      else finally_block s)"

text \<open>\<^verbatim>\<open>while (!disconnected) { const { done, value } = await reader.read(); ...\<close>\<close>

definition while_head :: "fetcher \<Rightarrow> fetcher" where
  "while_head s = (if \<not> disconnected s then s\<lparr>pc := AwaitRead\<rparr> else after_loop s)"

text \<open>From \<^verbatim>\<open>if (!response.ok) throw ...\<close> to the first read.\<close>

fun digit_char :: "nat \<Rightarrow> char" where
  "digit_char n = (''0123456789'' ! (n mod 10))"

function string_of_nat :: "nat \<Rightarrow> string" where
  "string_of_nat n = (if n < 10 then [digit_char n] else string_of_nat (n div 10) @ [digit_char n])"
  by pat_completeness auto
termination
  by (relation "measure id") auto

declare string_of_nat.simps [simp del]

text \<open>\<^verbatim>\<open>response.headers.get('content-type') || 'application/octet-stream'\<close>\<close>

definition response_contentType :: "response \<Rightarrow> string" where
  "response_contentType r =
     (case content_type_header r of
        None \<Rightarrow> ''application/octet-stream''
      | Some h \<Rightarrow> if h = [] then ''application/octet-stream'' else h)"

definition http_error :: "response \<Rightarrow> string" where
  \<comment> \<open>\<^verbatim>\<open>`HTTP ${response.status}: ${response.statusText}`\<close>\<close>
  "http_error r = ''HTTP '' @ string_of_nat (status r) @ '': '' @ statusText r"

definition after_response :: "fetcher \<Rightarrow> response \<Rightarrow> fetcher" where
  "after_response s r =
     (if \<not> ok r then catch_block s (http_error r)
      else
        let ct = response_contentType r
        in if \<not> has_body r then catch_block s ''Readable stream not available for download''
           else while_head (s\<lparr>f_contentType := ct\<rparr>))"

text \<open>
  After the first \<^verbatim>\<open>fetch\<close> (credentials \<^verbatim>\<open>include\<close>):
  \<^verbatim>\<open>if (!response.ok && (response.status === 403 || response.type === 'opaque'))\<close>
  fetches again, with no \<^verbatim>\<open>credentials\<close> option.
\<close>

definition after_fetch1 :: "fetcher \<Rightarrow> response \<Rightarrow> fetcher" where
  "after_fetch1 s r =
     (if \<not> ok r \<and> (status r = 403 \<or> rtype r = ''opaque'')
      then s\<lparr>pc := AwaitFetch2, effects := effects s @ [Fetch (f_url s) None]\<rparr>
      else after_response s r)"

text \<open>The message that starts a session: \<^verbatim>\<open>{ action: 'downloadFileStream', url, requestId }\<close>.\<close>

record request =
  action :: string
  url :: string
  req_requestId :: string

definition onMessage :: "request \<Rightarrow> fetcher" where
  "onMessage m =
     (if action m \<noteq> ''downloadFileStream'' \<or> url m = []
      then \<lparr>pc = Finished, f_url = url m, f_requestId = req_requestId m,
            f_contentType = [], disconnected = False, effects = []\<rparr>
      else \<lparr>pc = AwaitFetch1, f_url = url m, f_requestId = req_requestId m,
            f_contentType = [], disconnected = False,
            effects = [Fetch (url m) (Some ''include'')]\<rparr>)"

text \<open>
  One event of the event loop. \<^verbatim>\<open>disconnectHandler\<close> sets the flag and aborts the
  controller whose signal both fetches carry; it is removed when the handler has finished.
  A promise the handler is not waiting for does not resume it.
\<close>

fun step :: "fetcher \<Rightarrow> event \<Rightarrow> fetcher" where
  "step s Disconnect =
     (if pc s = Finished then s
      else s\<lparr>disconnected := True, effects := effects s @ [Abort]\<rparr>)"
| "step s (FetchSettled x) =
     (case pc s of
        AwaitFetch1 \<Rightarrow> (case x of Inl e \<Rightarrow> catch_block s e | Inr r \<Rightarrow> after_fetch1 s r)
      | AwaitFetch2 \<Rightarrow> (case x of Inl e \<Rightarrow> catch_block s e | Inr r \<Rightarrow> after_response s r)
      | _ \<Rightarrow> s)"
| "step s (ReadSettled x) =
     (case pc s of
        AwaitRead \<Rightarrow>
          (case x of
             Inl e \<Rightarrow> catch_block s e
           | Inr ReadDone \<Rightarrow> after_loop s
           | Inr (ReadValue None) \<Rightarrow> while_head s
           | Inr (ReadValue (Some v)) \<Rightarrow>
               (case relay s v of Inl e \<Rightarrow> catch_block s e | Inr s' \<Rightarrow> while_head s'))
      | _ \<Rightarrow> s)"

definition run :: "fetcher \<Rightarrow> event list \<Rightarrow> fetcher" where
  "run s evs = foldl step s evs"

text \<open>The messages posted on the port, in order.\<close>

fun posted :: "effect list \<Rightarrow> message list" where
  "posted [] = []"
| "posted (PostMessage m # es) = m # posted es"
| "posted (_ # es) = posted es"

text \<open>
  The events of a download that nothing disturbs: the first \<^verbatim>\<open>fetch\<close> resolves with
  \<open>r\<close>, the reader delivers \<open>reads\<close> one by one and then reports \<^verbatim>\<open>done\<close>. The body
  of the response is what the reads carry, in order.
\<close>

definition served :: "response \<Rightarrow> bytes option list \<Rightarrow> event list" where
  "served r reads =
     FetchSettled (Inr r) # map (\<lambda>v. ReadSettled (Inr (ReadValue v))) reads
       @ [ReadSettled (Inr ReadDone)]"

definition body_of :: "bytes option list \<Rightarrow> bytes" where
  "body_of reads = concat (map (\<lambda>v. case v of None \<Rightarrow> [] | Some b \<Rightarrow> b) reads)"

definition stream_request :: "string \<Rightarrow> string \<Rightarrow> request" where
  "stream_request u rid = \<lparr>action = ''downloadFileStream'', url = u, req_requestId = rid\<rparr>"

subsection \<open>The Requester: downloadFileViaBackground of extractor.js\<close>

record blob =
  data :: bytes
  btype :: string

text \<open>\<^verbatim>\<open>{ filename, blob }\<close>, what a successful strategy returns.\<close>

record download_result =
  filename :: string
  blob :: blob

text \<open>
  The local variables of one call, what it has posted on the port, every call of
  \<^verbatim>\<open>resolve\<close> with its argument (\<open>None\<close> is \<^verbatim>\<open>null\<close>), and the number of calls of
  \<^verbatim>\<open>port.disconnect()\<close>. \<open>timer_pending\<close> holds while the two-minute timer has neither
  fired nor been cleared.
\<close>

record requester =
  r_requestId :: string
  r_filename :: string
  chunks :: "bytes list"
  totalLength :: nat
  r_contentType :: string
  settled :: bool
  timer_pending :: bool
  outbox :: "request list"
  resolved :: "download_result option list"
  port_disconnects :: nat

datatype requester_event = Message message | PortDisconnect | Timeout

text \<open>
  \<^verbatim>\<open>const finalize = (result) => { if (settled) return; settled = true; cleanup(); resolve(result); }\<close>
  where \<^verbatim>\<open>cleanup\<close> calls \<^verbatim>\<open>port.disconnect()\<close>.
\<close>

definition finalize :: "requester \<Rightarrow> download_result option \<Rightarrow> requester" where
  "finalize q result =
     (if settled q then q
      else q\<lparr>settled := True, port_disconnects := port_disconnects q + 1,
             resolved := resolved q @ [result]\<rparr>)"

text \<open>
  \<^verbatim>\<open>combined.set(chunk, offset)\<close> on a \<^verbatim>\<open>Uint8Array\<close>: a \<^verbatim>\<open>RangeError\<close> (\<open>None\<close>) when
  the chunk does not fit.
\<close>

definition set_bytes :: "bytes \<Rightarrow> bytes \<Rightarrow> nat \<Rightarrow> bytes option" where
  "set_bytes combined c offset =
     (if offset + length c \<le> length combined
      then Some (take offset combined @ c @ drop (offset + length c) combined)
      else None)"

text \<open>
  \<^verbatim>\<open>let offset = 0; chunks.forEach(chunk => { combined.set(chunk, offset); offset += chunk.byteLength; });\<close>
\<close>

fun assemble :: "bytes list \<Rightarrow> bytes \<Rightarrow> nat \<Rightarrow> bytes option" where
  "assemble [] combined offset = Some combined"
| "assemble (c # cs) combined offset =
     (case set_bytes combined c offset of
        None \<Rightarrow> None
      | Some combined' \<Rightarrow> assemble cs combined' (offset + length c))"

text \<open>
  The listener of \<^verbatim>\<open>port.onMessage\<close>. An error thrown inside it (the \<^verbatim>\<open>RangeError\<close>)
  leaves the listener after \<^verbatim>\<open>clearTimeout\<close> and the assignment to \<^verbatim>\<open>contentType\<close>.
\<close>

definition on_message :: "requester \<Rightarrow> message \<Rightarrow> requester" where
  "on_message q m =
     (if requestId m \<noteq> r_requestId q then q
      else if mtype m = ''chunk'' \<and> chunk m \<noteq> None then
        (case chunk m of
           None \<Rightarrow> q
         | Some view \<Rightarrow>
             if length view = 0 then q
             else q\<lparr>chunks := chunks q @ [view], totalLength := totalLength q + length view\<rparr>)
      else if mtype m = ''complete'' then
        (let q1 = q\<lparr>timer_pending := False,
                     r_contentType :=
                       (case contentType m of
                          None \<Rightarrow> r_contentType q
                        | Some ct \<Rightarrow> if ct = [] then r_contentType q else ct)\<rparr>
         in if totalLength q1 = 0 then finalize q1 None
            else (case assemble (chunks q1) (replicate (totalLength q1) 0) 0 of
                    None \<Rightarrow> q1
                  | Some combined \<Rightarrow>
                      let b = \<lparr>data = combined, btype = r_contentType q1\<rparr>
                      in finalize q1 (if length (data b) > 0
                                      then Some \<lparr>filename = r_filename q1, blob = b\<rparr>
                                      else None)))
      else if mtype m = ''error'' then finalize (q\<lparr>timer_pending := False\<rparr>) None
      else q)"

text \<open>
  The three listeners: \<^verbatim>\<open>port.onMessage\<close>, \<^verbatim>\<open>port.onDisconnect\<close> (which clears the
  timer and finalizes with \<^verbatim>\<open>null\<close>) and the timer's callback (which runs only while the
  timer is pending).
\<close>

fun on_event :: "requester \<Rightarrow> requester_event \<Rightarrow> requester" where
  "on_event q (Message m) = on_message q m"
| "on_event q PortDisconnect = finalize (q\<lparr>timer_pending := False\<rparr>) None"
| "on_event q Timeout =
     (if timer_pending q then finalize (q\<lparr>timer_pending := False\<rparr>) None else q)"

text \<open>
  The state when the executor of the promise returns: the listeners are registered, the
  timer is set and \<^verbatim>\<open>{ action: 'downloadFileStream', url, requestId }\<close> is posted. The
  request id (time and a random number in the source) is a parameter.
\<close>

definition open_session :: "string \<Rightarrow> string \<Rightarrow> string \<Rightarrow> requester" where
  "open_session rid u fname =
     \<lparr>r_requestId = rid, r_filename = fname, chunks = [], totalLength = 0,
      r_contentType = ''application/octet-stream'', settled = False, timer_pending = True,
      outbox = [stream_request u rid],
      resolved = [], port_disconnects = 0\<rparr>"

definition receive :: "requester \<Rightarrow> requester_event list \<Rightarrow> requester" where
  "receive q evs = foldl on_event q evs"

text \<open>
  \<^verbatim>\<open>downloadFileViaBackground(url, filename)\<close>: the value the promise resolves with. The
  events are those that reach the three listeners; the timer fires after them unless it
  was cleared, so \<open>Timeout\<close> closes every run. A promise keeps the first value it is
  resolved with.
\<close>

definition downloadFileViaBackground ::
  "string \<Rightarrow> requester_event list \<Rightarrow> string \<Rightarrow> string \<Rightarrow> download_result option" where
  "downloadFileViaBackground rid evs u fname =
     (case resolved (receive (open_session rid u fname) (evs @ [Timeout])) of
        [] \<Rightarrow> None
      | result # _ \<Rightarrow> result)"

subsection \<open>The strategy cascade: downloadFile of extractor.js\<close>

text \<open>
  A \<^verbatim>\<open>Response\<close> in the page: what the handler above reads of it, and the blob that
  \<^verbatim>\<open>response.blob()\<close> resolves with (\<open>None\<close> when it rejects).
\<close>

record page_response = response +
  body_blob :: "blob option"

text \<open>\<^verbatim>\<open>s.startsWith(p)\<close> and \<^verbatim>\<open>s.includes(p)\<close>.\<close>

fun startsWith :: "string \<Rightarrow> string \<Rightarrow> bool" where
  "startsWith s [] = True"
| "startsWith [] (p # ps) = False"
| "startsWith (c # s) (p # ps) = (c = p \<and> startsWith s ps)"

fun includes_str :: "string \<Rightarrow> string \<Rightarrow> bool" where
  "includes_str [] p = (p = [])"
| "includes_str (c # s) p = (startsWith (c # s) p \<or> includes_str s p)"

text \<open>A string that may be \<^verbatim>\<open>null\<close> is truthy when it is there and not empty.\<close>

definition truthy :: "string option \<Rightarrow> bool" where
  "truthy v = (case v of None \<Rightarrow> False | Some s \<Rightarrow> s \<noteq> [])"

text \<open>
  The strategies, named by the place of the attempt in \<^verbatim>\<open>downloadFile\<close>: the fetch of the
  blob URL; \<^verbatim>\<open>downloadFileViaBackgroundBlob\<close>; \<^verbatim>\<open>downloadFileViaXHR\<close> before the
  fetches (with, then without credentials); the fetch with \<^verbatim>\<open>credentials: 'same-origin'\<close>
  (with the \<^verbatim>\<open>Authorization\<close> header or not); the fetch with
  \<^verbatim>\<open>credentials: 'include'\<close>; the second same-origin fetch after a 403 under API
  authentication; \<^verbatim>\<open>downloadFileViaXHR\<close> after the fetches; and
  \<^verbatim>\<open>downloadFileViaBackground\<close>.
\<close>

datatype strategy =
    LocalHandle
  | OneShot
  | LowLevelFirst bool
  | SameOrigin bool
  | Permissive
  | SameOriginRetry
  | LowLevelAgain bool
  | Streaming

text \<open>
  The reply of the one-shot service, \<^verbatim>\<open>{ success, blob, type, size }\<close> or
  \<^verbatim>\<open>{ success: false, error }\<close>. The field \<^verbatim>\<open>blob\<close> is a base64 text, modelled by the
  bytes it encodes (\<open>None\<close> when the field is missing); the text of no bytes is the empty
  string, which is falsy.
\<close>

record oneshot_reply =
  success :: bool
  payload :: "bytes option"
  reply_type :: string

text \<open>
  \<^verbatim>\<open>downloadFileViaBackgroundBlob\<close>: \<open>None\<close> for the reply stands for
  \<^verbatim>\<open>chrome.runtime.lastError\<close> or a missing response.
\<close>

definition downloadFileViaBackgroundBlob ::
  "oneshot_reply option \<Rightarrow> string \<Rightarrow> download_result option" where
  "downloadFileViaBackgroundBlob reply fname =
     (case reply of
        None \<Rightarrow> None
      | Some resp \<Rightarrow>
          (case payload resp of
             None \<Rightarrow> None
           | Some b \<Rightarrow>
               if success resp \<and> b \<noteq> []
               then Some \<lparr>filename = fname, blob = \<lparr>data = b, btype = reply_type resp\<rparr>\<rparr>
               else None))"

text \<open>How an \<^verbatim>\<open>XMLHttpRequest\<close> ends: \<^verbatim>\<open>onload\<close> with status and response, \<^verbatim>\<open>onerror\<close>, \<^verbatim>\<open>ontimeout\<close>.\<close>

datatype xhr_outcome = XhrLoad nat "blob option" | XhrError | XhrTimeout

definition xhr_onload :: "nat \<Rightarrow> blob option \<Rightarrow> string \<Rightarrow> download_result option" where
  "xhr_onload st resp fname =
     (if st = 200
      then (case resp of
              None \<Rightarrow> None
            | Some b \<Rightarrow> if length (data b) > 0 then Some \<lparr>filename = fname, blob = b\<rparr> else None)
      else None)"

text \<open>
  \<^verbatim>\<open>downloadFileViaXHR\<close>: the request with credentials and, after its \<^verbatim>\<open>onerror\<close>, the
  request without. The result comes with the \<^verbatim>\<open>withCredentials\<close> flags of the requests
  sent.
\<close>

definition downloadFileViaXHR ::
  "xhr_outcome \<Rightarrow> xhr_outcome \<Rightarrow> string \<Rightarrow> bool list \<times> download_result option" where
  "downloadFileViaXHR first second fname =
     (case first of
        XhrLoad st resp \<Rightarrow> ([True], xhr_onload st resp fname)
      | XhrTimeout \<Rightarrow> ([True], None)
      | XhrError \<Rightarrow>
          ([True, False],
           (case second of
              XhrLoad st resp \<Rightarrow> xhr_onload st resp fname
            | XhrError \<Rightarrow> None
            | XhrTimeout \<Rightarrow> None)))"

text \<open>
  What the network answers to each request \<^verbatim>\<open>downloadFile\<close> may send. A \<^verbatim>\<open>fetch\<close>
  resolves (\<open>Inr\<close>) or rejects (\<open>Inl\<close>).
\<close>

record env =
  blobFetch :: "string + page_response"
  oneShot :: "oneshot_reply option"
  xhrFirst :: "xhr_outcome \<times> xhr_outcome"
  fetchSameOrigin :: "string + page_response"
  fetchInclude :: "string + page_response"
  fetchRetry :: "string + page_response"
  xhrAgain :: "xhr_outcome \<times> xhr_outcome"
  streamId :: string
  streamEvents :: "requester_event list"

text \<open>
  \<^verbatim>\<open>const response = await fetch(blobUrl); if (response.ok) { const blob = await
  response.blob(); if (blob.size > 0) return { filename, blob }; }\<close> inside its own
  \<^verbatim>\<open>try\<close>.
\<close>

definition local_handle :: "string + page_response \<Rightarrow> string \<Rightarrow> download_result option" where
  "local_handle x fname =
     (case x of
        Inl e \<Rightarrow> None
      | Inr r \<Rightarrow>
          if ok r
          then (case body_blob r of
                  None \<Rightarrow> None
                | Some b \<Rightarrow> if length (data b) > 0 then Some \<lparr>filename = fname, blob = b\<rparr> else None)
          else None)"

text \<open>\<^verbatim>\<open>return await downloadFileViaBackground(url, filename)\<close>; every function below
  returns the strategies attempted so far and the result.\<close>

definition via_stream ::
  "env \<Rightarrow> string \<Rightarrow> string \<Rightarrow> strategy list \<Rightarrow> strategy list \<times> download_result option" where
  "via_stream env u fname log =
     (log @ [Streaming], downloadFileViaBackground (streamId env) (streamEvents env) u fname)"

text \<open>
  \<^verbatim>\<open>const xhrResult = await downloadFileViaXHR(url, filename); if (xhrResult) return
  xhrResult; return await downloadFileViaBackground(url, filename);\<close>
\<close>

definition xhr_then_stream ::
  "env \<Rightarrow> string \<Rightarrow> string \<Rightarrow> strategy list \<Rightarrow> strategy list \<times> download_result option" where
  "xhr_then_stream env u fname log =
     (case downloadFileViaXHR (fst (xhrAgain env)) (snd (xhrAgain env)) fname of
        (creds, Some res) \<Rightarrow> (log @ map LowLevelAgain creds, Some res)
      | (creds, None) \<Rightarrow> via_stream env u fname (log @ map LowLevelAgain creds))"

text \<open>
  After the inner \<^verbatim>\<open>try\<close>: a response that is not ok goes to XHR and the stream on 403
  or \<^verbatim>\<open>opaque\<close> and throws otherwise; the outer \<^verbatim>\<open>catch\<close> streams. An ok response is
  read as a blob (a rejection is caught by the outer \<^verbatim>\<open>catch\<close>), and
  \<^verbatim>\<open>if (blob.size === 0) return null;\<close>
\<close>

definition finish ::
  "env \<Rightarrow> string \<Rightarrow> string \<Rightarrow> strategy list \<Rightarrow> page_response
   \<Rightarrow> strategy list \<times> download_result option" where
  "finish env u fname log r =
     (if \<not> ok r then
        (if status r = 403 \<or> rtype r = ''opaque'' then xhr_then_stream env u fname log
         else via_stream env u fname log)
      else (case body_blob r of
              None \<Rightarrow> via_stream env u fname log
            | Some b \<Rightarrow>
                if length (data b) = 0 then (log, None)
                else (log, Some \<lparr>filename = fname, blob = b\<rparr>)))"

text \<open>
  The inner \<^verbatim>\<open>try\<close>. \<open>fetch_cascade\<close>: the same-origin fetch (with the
  \<^verbatim>\<open>Authorization\<close> header when API authentication is on and the URL contains
  \<^verbatim>\<open>/rest/api/\<close>) and, if its response is not ok, the fetch with
  \<^verbatim>\<open>credentials: 'include'\<close>, whose rejection gives \<^verbatim>\<open>null\<close>. \<open>after_fetches\<close>: the
  stream when there is no response or it is \<^verbatim>\<open>opaque\<close>, and the second same-origin
  fetch on a 403 under API authentication. A rejected same-origin fetch is caught by
  \<^verbatim>\<open>catch (corsError)\<close>.
\<close>

definition after_fetches ::
  "env \<Rightarrow> string \<Rightarrow> string \<Rightarrow> bool \<Rightarrow> string option \<Rightarrow> strategy list
   \<Rightarrow> page_response option \<Rightarrow> strategy list \<times> download_result option" where
  "after_fetches env u fname useApiAuth apiAuthHeader log response =
     (case response of
        None \<Rightarrow> via_stream env u fname log
      | Some r \<Rightarrow>
          if rtype r = ''opaque'' then via_stream env u fname log
          else if \<not> ok r \<and> status r = 403 \<and> useApiAuth \<and> truthy apiAuthHeader
          then (case fetchRetry env of
                  Inl e \<Rightarrow> xhr_then_stream env u fname (log @ [SameOriginRetry])
                | Inr r3 \<Rightarrow> finish env u fname (log @ [SameOriginRetry]) r3)
          else finish env u fname log r)"

definition fetch_cascade ::
  "env \<Rightarrow> string \<Rightarrow> string \<Rightarrow> bool \<Rightarrow> string option \<Rightarrow> strategy list
   \<Rightarrow> strategy list \<times> download_result option" where
  "fetch_cascade env u fname useApiAuth apiAuthHeader log =
     (case fetchSameOrigin env of
        Inl e \<Rightarrow>
          xhr_then_stream env u fname
            (log @ [SameOrigin (useApiAuth \<and> truthy apiAuthHeader \<and> includes_str u ''/rest/api/'')])
      | Inr r1 \<Rightarrow>
          if \<not> ok r1
          then after_fetches env u fname useApiAuth apiAuthHeader
                 (log @ [SameOrigin (useApiAuth \<and> truthy apiAuthHeader \<and> includes_str u ''/rest/api/''),
                         Permissive])
                 (case fetchInclude env of Inl e \<Rightarrow> None | Inr r2 \<Rightarrow> Some r2)
          else after_fetches env u fname useApiAuth apiAuthHeader
                 (log @ [SameOrigin (useApiAuth \<and> truthy apiAuthHeader \<and> includes_str u ''/rest/api/'')])
                 (Some r1))"

text \<open>
  \<^verbatim>\<open>if (url.includes('/secure/attachment/') || url.includes('/attachment/')) { const
  xhrResult = await downloadFileViaXHR(url, filename); if (xhrResult) return xhrResult; }\<close>
  and then the fetches.
\<close>

definition attachment_step ::
  "env \<Rightarrow> string \<Rightarrow> string \<Rightarrow> bool \<Rightarrow> string option \<Rightarrow> strategy list
   \<Rightarrow> strategy list \<times> download_result option" where
  "attachment_step env u fname useApiAuth apiAuthHeader log =
     (if includes_str u ''/secure/attachment/'' \<or> includes_str u ''/attachment/''
      then (case downloadFileViaXHR (fst (xhrFirst env)) (snd (xhrFirst env)) fname of
              (creds, Some res) \<Rightarrow> (log @ map LowLevelFirst creds, Some res)
            | (creds, None) \<Rightarrow>
                fetch_cascade env u fname useApiAuth apiAuthHeader (log @ map LowLevelFirst creds))
      else fetch_cascade env u fname useApiAuth apiAuthHeader log)"

text \<open>
  \<^verbatim>\<open>if (useApiAuth && apiAuthHeader) { const bgResult = await
  downloadFileViaBackgroundBlob(url, filename, apiAuthHeader); if (bgResult) return bgResult; }\<close>
\<close>

definition api_step ::
  "env \<Rightarrow> string \<Rightarrow> string \<Rightarrow> bool \<Rightarrow> string option \<Rightarrow> strategy list
   \<Rightarrow> strategy list \<times> download_result option" where
  "api_step env u fname useApiAuth apiAuthHeader log =
     (if useApiAuth \<and> truthy apiAuthHeader
      then (case downloadFileViaBackgroundBlob (oneShot env) fname of
              Some res \<Rightarrow> (log @ [OneShot], Some res)
            | None \<Rightarrow> attachment_step env u fname useApiAuth apiAuthHeader (log @ [OneShot]))
      else attachment_step env u fname useApiAuth apiAuthHeader log)"

text \<open>
  \<^verbatim>\<open>if (url.startsWith('blob:') || url.startsWith('data:')) return null;\<close>
\<close>

definition network_step ::
  "env \<Rightarrow> string \<Rightarrow> string \<Rightarrow> bool \<Rightarrow> string option \<Rightarrow> strategy list
   \<Rightarrow> strategy list \<times> download_result option" where
  "network_step env u fname useApiAuth apiAuthHeader log =
     (if startsWith u ''blob:'' \<or> startsWith u ''data:'' then (log, None)
      else api_step env u fname useApiAuth apiAuthHeader log)"

text \<open>
  \<^verbatim>\<open>downloadFile(url, filename, blobUrl, useApiAuth, apiAuthHeader)\<close>: the blob URL
  first, when there is one that starts with \<^verbatim>\<open>blob:\<close>.
\<close>

definition downloadFile ::
  "env \<Rightarrow> string \<Rightarrow> string \<Rightarrow> string option \<Rightarrow> bool \<Rightarrow> string option
   \<Rightarrow> strategy list \<times> download_result option" where
  "downloadFile env u fname blobUrl useApiAuth apiAuthHeader =
     (if (case blobUrl of None \<Rightarrow> False | Some bu \<Rightarrow> bu \<noteq> [] \<and> startsWith bu ''blob:'')
      then (case local_handle (blobFetch env) fname of
              Some res \<Rightarrow> ([LocalHandle], Some res)
            | None \<Rightarrow> network_step env u fname useApiAuth apiAuthHeader [LocalHandle])
      else network_step env u fname useApiAuth apiAuthHeader [])"

subsection \<open>The attachment names: the naming loop of extractTicket\<close>

text \<open>
  A \<open>char\<close> stands for a UTF-16 code unit below 256 (ASCII and Latin-1), so the names and
  URLs modelled are those without a character from U+0100 on; on these strings the
  functions below act as the JavaScript methods do. \<^verbatim>\<open>/[<>:"/\\|?*]/g\<close> matches the
  characters of \<open>invalid_chars\<close>. \<^verbatim>\<open>trim\<close> strips white space and line terminators,
  which below 256 are U+0009 to U+000D, U+0020 and U+00A0. \<^verbatim>\<open>toLowerCase\<close> maps
  \<^verbatim>\<open>A\<close> to \<^verbatim>\<open>Z\<close> and the capital letters U+00C0 to U+00DE of Latin-1 (U+00D7 is the
  multiplication sign) to the code unit 32 above.
\<close>

definition invalid_chars :: "char list" where
  "invalid_chars = [CHR ''<'', CHR ''>'', CHR '':'', CHR 0x22, CHR ''/'', CHR 0x5C,
                    CHR ''|'', CHR ''?'', CHR ''*'']"

definition clean :: "string \<Rightarrow> string" where
  \<comment> \<open>\<^verbatim>\<open>.replace(/[<>:"/\\|?*]/g, '_')\<close>\<close>
  "clean s = map (\<lambda>c. if c \<in> set invalid_chars then CHR ''_'' else c) s"

definition is_space :: "char \<Rightarrow> bool" where
  "is_space c = (c \<in> set [CHR '' '', CHR 0x09, CHR 0x0A, CHR 0x0B, CHR 0x0C, CHR 0x0D, CHR 0xA0])"

definition trim :: "string \<Rightarrow> string" where
  "trim s = rev (dropWhile is_space (rev (dropWhile is_space s)))"

definition lower_char :: "char \<Rightarrow> char" where
  "lower_char c =
     (let n = of_char c :: nat
      in if (65 \<le> n \<and> n \<le> 90) \<or> (192 \<le> n \<and> n \<le> 222 \<and> n \<noteq> 215)
         then char_of (n + 32) else c)"

definition toLowerCase :: "string \<Rightarrow> string" where
  "toLowerCase s = map lower_char s"

definition endsWith :: "string \<Rightarrow> string \<Rightarrow> bool" where
  "endsWith s suf = startsWith (rev s) (rev suf)"

text \<open>
  The pieces of \<^verbatim>\<open>s.split(c)\<close> that the code uses: the last piece, all pieces but the
  last joined again by \<open>c\<close>, and the first piece.
\<close>

definition last_piece :: "char \<Rightarrow> string \<Rightarrow> string" where
  "last_piece c s = rev (takeWhile (\<lambda>x. x \<noteq> c) (rev s))"

definition but_last_piece :: "char \<Rightarrow> string \<Rightarrow> string" where
  "but_last_piece c s = rev (drop 1 (dropWhile (\<lambda>x. x \<noteq> c) (rev s)))"

definition first_piece :: "char \<Rightarrow> string \<Rightarrow> string" where
  "first_piece c s = takeWhile (\<lambda>x. x \<noteq> c) s"

text \<open>
  \<^verbatim>\<open>let ext = ''; const urlParts = file.url.split('.'); if (urlParts.length > 1) ext =
  urlParts[urlParts.length - 1].split('?')[0].split('#')[0];\<close>
\<close>

definition url_ext :: "string \<Rightarrow> string" where
  "url_ext u =
     (if CHR ''.'' \<in> set u
      then first_piece CHR ''#'' (first_piece CHR ''?'' (last_piece CHR ''.'' u))
      else [])"

text \<open>\<^verbatim>\<open>filename.match(/\.[a-z0-9]+$/i)\<close>\<close>

definition is_alnum :: "char \<Rightarrow> bool" where
  "is_alnum c =
     (let n = of_char c :: nat
      in (48 \<le> n \<and> n \<le> 57) \<or> (65 \<le> n \<and> n \<le> 90) \<or> (97 \<le> n \<and> n \<le> 122))"

definition has_extension :: "string \<Rightarrow> bool" where
  "has_extension s =
     (CHR ''.'' \<in> set s \<and> last_piece CHR ''.'' s \<noteq> [] \<and> list_all is_alnum (last_piece CHR ''.'' s))"

text \<open>
  The name before the uniqueness loop, in the extraction from the page:
  \<^verbatim>\<open>filename = filename.replace(/[<>:"/\\|?*]/g, '_').trim(); if (ext &&
  !filename.toLowerCase().endsWith('.' + ext.toLowerCase())) { const hasExt =
  filename.match(/\.[a-z0-9]+$/i); if (!hasExt) filename = filename + '.' + ext; }\<close>
\<close>

definition dom_filename :: "string \<Rightarrow> string \<Rightarrow> string" where
  "dom_filename name u =
     (let ext = url_ext u; fname = trim (clean name)
      in if ext \<noteq> [] \<and> \<not> endsWith (toLowerCase fname) (''.'' @ toLowerCase ext)
         then (if \<not> has_extension fname then fname @ ''.'' @ ext else fname)
         else fname)"

text \<open>
  The name the loop tries for a counter:
  \<^verbatim>\<open>const nameParts = filename.split('.'); if (nameParts.length > 1) { const ext =
  nameParts.pop(); finalFilename = nameParts.join('.') + `_${counter}.${ext}`; } else
  finalFilename = `${filename}_${counter}`;\<close>
\<close>

definition candidate :: "string \<Rightarrow> nat \<Rightarrow> string" where
  "candidate fname counter =
     (if CHR ''.'' \<in> set fname
      then but_last_piece CHR ''.'' fname @ ''_'' @ string_of_nat counter @ ''.''
           @ last_piece CHR ''.'' fname
      else fname @ ''_'' @ string_of_nat counter)"

text \<open>
  \<^verbatim>\<open>let finalFilename = filename; let counter = 1; while (attachmentPaths.some(a =>
  a.path === `${finalTicketKey}/raw/attachments/${finalFilename}`)) { ...; counter++; }\<close>
  The loop ends because the names it tries differ for different counters and the paths
  assigned so far are finitely many.
\<close>

function unique_loop :: "string list \<Rightarrow> string \<Rightarrow> string \<Rightarrow> string \<Rightarrow> nat \<Rightarrow> string" where
  "unique_loop paths dir fname finalFilename counter =
     (if dir @ finalFilename \<in> set paths
      then unique_loop paths dir fname (candidate fname counter) (counter + 1)
      else finalFilename)"
  by pat_completeness auto
termination
proof (relation "measure (\<lambda>(paths, dir, fname, finalFilename, counter).
          2 * length (filter (\<lambda>p. \<exists>k\<ge>counter. p = dir @ candidate fname k) paths)
          + (if dir @ finalFilename \<in> set paths then 1 else 0))", goal_cases)
  case 1
  show ?case by simp
next
  case (2 paths dir fname finalFilename counter)
  have nonempty: "string_of_nat n \<noteq> []" for n
    by (subst string_of_nat.simps) simp
  have digit: "digit_char m = digit_char n \<Longrightarrow> m mod 10 = n mod 10" for m n
  proof -
    assume "digit_char m = digit_char n"
    moreover have "distinct ''0123456789''" by simp
    moreover have "m mod 10 < length ''0123456789''" "n mod 10 < length ''0123456789''" by simp_all
    ultimately show ?thesis
      unfolding digit_char.simps by (metis nth_eq_iff_index_eq)
  qed
  have inj: "string_of_nat m = string_of_nat n \<Longrightarrow> m = n" for m n
  proof (induction m arbitrary: n rule: string_of_nat.induct)
    case (1 m)
    show ?case
    proof (cases "m < 10")
      case small: True
      show ?thesis
      proof (cases "n < 10")
        case True
        then have "digit_char m = digit_char n"
          using "1.prems" small by (simp add: string_of_nat.simps [of m] string_of_nat.simps [of n])
        then show ?thesis using digit small True by fastforce
      next
        case False
        then show ?thesis
          using "1.prems" small nonempty [of "n div 10"]
          by (simp add: string_of_nat.simps [of m] string_of_nat.simps [of n])
      qed
    next
      case big: False
      show ?thesis
      proof (cases "n < 10")
        case True
        then show ?thesis
          using "1.prems" big nonempty [of "m div 10"]
          by (simp add: string_of_nat.simps [of m] string_of_nat.simps [of n])
      next
        case False
        then have "string_of_nat (m div 10) = string_of_nat (n div 10)"
          and "digit_char m = digit_char n"
          using "1.prems" big by (simp_all add: string_of_nat.simps [of m] string_of_nat.simps [of n])
        then have "m div 10 = n div 10" "m mod 10 = n mod 10"
          using "1.IH" [OF big] digit by blast+
        then show ?thesis by (metis div_mult_mod_eq)
      qed
    qed
  qed
  have cand: "candidate fname k = candidate fname counter \<Longrightarrow> k = counter" for k
    using inj by (auto simp: candidate_def split: if_splits)
  let ?P = "\<lambda>c p. \<exists>k\<ge>c. p = dir @ candidate fname k"
  have sub: "filter (?P (counter + 1)) paths = filter (?P (counter + 1)) (filter (?P counter) paths)"
    by (auto intro!: filter_cong simp: Suc_le_eq intro: less_imp_le)
  have le: "length (filter (?P (counter + 1)) paths) \<le> length (filter (?P counter) paths)"
    by (subst sub) (rule length_filter_le)
  show ?case
  proof (cases "dir @ candidate fname counter \<in> set paths")
    case False
    then show ?thesis using 2 le by simp
  next
    case True
    then have "dir @ candidate fname counter \<in> set (filter (?P counter) paths)"
      by auto
    moreover have "\<not> ?P (counter + 1) (dir @ candidate fname counter)"
      using cand by fastforce
    ultimately have "length (filter (?P (counter + 1)) (filter (?P counter) paths))
                     < length (filter (?P counter) paths)"
      by (rule length_filter_less)
    then have "length (filter (?P (counter + 1)) paths) < length (filter (?P counter) paths)"
      using sub by simp
    then show ?thesis using 2 True by simp
  qed
qed

declare unique_loop.simps [simp del]

text \<open>
  A file that was downloaded, and the paths \<^verbatim>\<open>attachmentPaths\<close> after the iteration of
  the loop for it: \<open>dom_attach\<close> in the extraction from the page (\<^verbatim>\<open>extractTicket\<close>),
  where the file is named and its path added.
\<close>

record attachment =
  att_name :: string
  att_url :: string

definition attachments_dir :: "string \<Rightarrow> string" where
  "attachments_dir ticketKey = ticketKey @ ''/raw/attachments/''"

definition dom_attach :: "string \<Rightarrow> string list \<Rightarrow> attachment \<Rightarrow> string list" where
  "dom_attach ticketKey paths f =
     (let fname = dom_filename (att_name f) (att_url f)
      in paths @ [attachments_dir ticketKey
                  @ unique_loop paths (attachments_dir ticketKey) fname fname 1])"

text \<open>
  In the extraction through the API (\<^verbatim>\<open>extractTicketViaAPI\<close>) the body of the loop is
  \<^verbatim>\<open>try { if (!file.url) continue; const credentials =
  `${result.jiraEmail}:${result.jiraApiToken}`; ...; const result = downloadResult; ... }
  catch (error) { console.warn(...) }\<close>. The read of \<^verbatim>\<open>result\<close> for the credentials is
  in the block of the later declaration \<^verbatim>\<open>const result\<close>, before it is initialised, so
  it throws a \<^verbatim>\<open>ReferenceError\<close>, which the \<^verbatim>\<open>catch\<close> of the iteration logs: no file
  is downloaded or named there, and \<^verbatim>\<open>attachmentPaths\<close> stays as it is. \<open>api_body\<close> is
  the body of the \<^verbatim>\<open>try\<close>, \<open>api_attach\<close> the iteration.
\<close>

definition api_body :: "string \<Rightarrow> string list \<Rightarrow> attachment \<Rightarrow> string + string list" where
  "api_body ticketKey paths f =
     (if att_url f = [] then Inr paths else Inl ''ReferenceError'')"

definition api_attach :: "string \<Rightarrow> string list \<Rightarrow> attachment \<Rightarrow> string list" where
  "api_attach ticketKey paths f =
     (case api_body ticketKey paths f of Inl e \<Rightarrow> paths | Inr ps \<Rightarrow> ps)"

section \<open>Auxiliary definitions\<close>

text \<open>
  The chunks the \<^verbatim>\<open>for\<close> loop cuts from a buffer, as a list; \<open>pieces\<close> are the chunks
  of one read, \<open>post_chunks\<close> posts a list of chunks on a connected port.
\<close>

function slices :: "bytes \<Rightarrow> nat \<Rightarrow> bytes list" where
  "slices b offset =
     (if offset < length b
      then slice b offset (offset + MAX_CHUNK_SIZE) # slices b (offset + MAX_CHUNK_SIZE)
      else [])"
  by pat_completeness auto
termination
  by (relation "measure (\<lambda>(b, offset). length b - offset)")
     (auto simp: MAX_CHUNK_SIZE_def)

declare slices.simps [simp del]

definition pieces :: "bytes option \<Rightarrow> bytes list" where
  "pieces v = (case v of None \<Rightarrow> [] | Some b \<Rightarrow> if length b > MAX_CHUNK_SIZE then slices b 0 else [b])"

definition post_chunks :: "fetcher \<Rightarrow> bytes list \<Rightarrow> fetcher" where
  "post_chunks s cs = s\<lparr>effects := effects s @ map (\<lambda>c. PostMessage (chunk_message (f_requestId s) c)) cs\<rparr>"

text \<open>
  \<open>store_chunks\<close>: the Requester's state after it has received a list of chunks of its
  session. \<open>within_ceiling\<close>: an effect that is not a chunk message of more than
  \<open>MAX_CHUNK_SIZE\<close> bytes.
\<close>

definition store_chunks :: "requester \<Rightarrow> bytes list \<Rightarrow> requester" where
  "store_chunks q cs =
     q\<lparr>chunks := chunks q @ filter (\<lambda>c. c \<noteq> []) cs,
       totalLength := totalLength q + length (concat cs)\<rparr>"

definition within_ceiling :: "effect \<Rightarrow> bool" where
  "within_ceiling e =
     (case e of
        PostMessage m \<Rightarrow> (case chunk m of None \<Rightarrow> True | Some b \<Rightarrow> length b \<le> MAX_CHUNK_SIZE)
      | _ \<Rightarrow> True)"

text \<open>
  One streaming session end to end: the Requester opens it, the handler is started by the
  request the Requester has posted and runs under the events \<open>evs\<close>, and the Requester
  receives the messages the handler has posted, in order.
\<close>

definition session :: "string \<Rightarrow> string \<Rightarrow> string \<Rightarrow> event list \<Rightarrow> requester" where
  "session rid u fname evs =
     (let q0 = open_session rid u fname
      in receive q0 (map Message
           (concat (map (\<lambda>req. posted (effects (run (onMessage req) evs))) (outbox q0)))))"

text \<open>
  Responses and states to run the handler on: a 200 with a body, the handler after the
  first chunk of a session, a 403 and a 404. \<open>fetches\<close> are the requests among the effects,
  each with its \<^verbatim>\<open>credentials\<close> option.
\<close>

definition ok_response :: response where
  "ok_response = \<lparr>ok = True, status = 200, statusText = ''OK'', rtype = ''basic'',
                  content_type_header = Some ''image/png'', has_body = True\<rparr>"

definition first_chunk_received :: fetcher where
  "first_chunk_received =
     run (onMessage (stream_request ''https://h/f.png'' ''17-a3''))
       [FetchSettled (Inr ok_response), ReadSettled (Inr (ReadValue (Some [1, 2, 3])))]"

fun fetches :: "effect list \<Rightarrow> (string \<times> string option) list" where
  "fetches [] = []"
| "fetches (Fetch u c # es) = (u, c) # fetches es"
| "fetches (_ # es) = fetches es"

definition forbidden_response :: response where
  "forbidden_response = \<lparr>ok = False, status = 403, statusText = ''Forbidden'', rtype = ''cors'',
                         content_type_header = Some ''text/html'', has_body = True\<rparr>"

definition missing_response :: response where
  "missing_response = \<lparr>ok = False, status = 404, statusText = ''Not Found'', rtype = ''cors'',
                       content_type_header = Some ''text/html'', has_body = True\<rparr>"

text \<open>
  The terminal events of the session with request id \<open>rid\<close>; the invariant of the
  Requester's state (the accumulated length is the length of the buffer, \<^verbatim>\<open>resolve\<close> and
  \<^verbatim>\<open>port.disconnect()\<close> have been called once if the session is settled and never
  otherwise, and the timer is cleared only in a settled session); and the Requester after
  the first chunk.
\<close>

definition terminal :: "string \<Rightarrow> requester_event \<Rightarrow> bool" where
  "terminal rid ev =
     (case ev of
        Message m \<Rightarrow> requestId m = rid \<and> (mtype m = ''complete'' \<or> mtype m = ''error'')
      | PortDisconnect \<Rightarrow> True
      | Timeout \<Rightarrow> True)"

definition session_inv :: "requester \<Rightarrow> bool" where
  "session_inv q =
     (totalLength q = length (concat (chunks q))
      \<and> length (resolved q) = (if settled q then 1 else 0)
      \<and> port_disconnects q = length (resolved q)
      \<and> (timer_pending q \<or> settled q))"

definition first_chunk_stored :: requester where
  "first_chunk_stored =
     receive (open_session ''17-a3'' ''https://h/f.png'' ''f.png'')
       [Message (chunk_message ''17-a3'' [1, 2])]"

text \<open>
  The place of a strategy in the code of \<^verbatim>\<open>downloadFile\<close> (\<open>stage\<close>), its place in the
  priority list of the specification (\<open>spec_rank\<close>: local handle, request with the explicit
  auth header, same-origin request, permissive request, one-shot service, low-level request
  object, streaming), and what each strategy yields on a given network (\<open>yield\<close>): the
  result that makes \<^verbatim>\<open>downloadFile\<close> return it.
\<close>

fun stage :: "strategy \<Rightarrow> nat" where
  "stage LocalHandle = 0"
| "stage OneShot = 1"
| "stage (LowLevelFirst True) = 2"
| "stage (LowLevelFirst False) = 3"
| "stage (SameOrigin h) = 4"
| "stage Permissive = 5"
| "stage SameOriginRetry = 6"
| "stage (LowLevelAgain True) = 7"
| "stage (LowLevelAgain False) = 8"
| "stage Streaming = 9"

fun spec_rank :: "strategy \<Rightarrow> nat" where
  "spec_rank LocalHandle = 1"
| "spec_rank (SameOrigin True) = 2"
| "spec_rank (SameOrigin False) = 3"
| "spec_rank SameOriginRetry = 3"
| "spec_rank Permissive = 4"
| "spec_rank OneShot = 5"
| "spec_rank (LowLevelFirst c) = 6"
| "spec_rank (LowLevelAgain c) = 6"
| "spec_rank Streaming = 7"

definition blob_of :: "page_response \<Rightarrow> string \<Rightarrow> download_result option" where
  "blob_of r fname =
     (case body_blob r of
        None \<Rightarrow> None
      | Some b \<Rightarrow> if data b = [] then None else Some \<lparr>filename = fname, blob = b\<rparr>)"

definition xhr_yield :: "xhr_outcome \<Rightarrow> string \<Rightarrow> download_result option" where
  "xhr_yield x fname = (case x of XhrLoad st resp \<Rightarrow> xhr_onload st resp fname | _ \<Rightarrow> None)"

fun yield :: "env \<Rightarrow> string \<Rightarrow> string \<Rightarrow> strategy \<Rightarrow> download_result option" where
  "yield env u fname LocalHandle = local_handle (blobFetch env) fname"
| "yield env u fname OneShot = downloadFileViaBackgroundBlob (oneShot env) fname"
| "yield env u fname (LowLevelFirst c) =
     xhr_yield (if c then fst (xhrFirst env) else snd (xhrFirst env)) fname"
| "yield env u fname (SameOrigin h) =
     (case fetchSameOrigin env of
        Inl e \<Rightarrow> None
      | Inr r \<Rightarrow> if ok r \<and> rtype r \<noteq> ''opaque'' then blob_of r fname else None)"
| "yield env u fname Permissive =
     (case fetchInclude env of
        Inl e \<Rightarrow> None
      | Inr r \<Rightarrow> if ok r \<and> rtype r \<noteq> ''opaque'' then blob_of r fname else None)"
| "yield env u fname SameOriginRetry =
     (case fetchRetry env of
        Inl e \<Rightarrow> None
      | Inr r \<Rightarrow> if ok r then blob_of r fname else None)"
| "yield env u fname (LowLevelAgain c) =
     xhr_yield (if c then fst (xhrAgain env) else snd (xhrAgain env)) fname"
| "yield env u fname Streaming =
     downloadFileViaBackground (streamId env) (streamEvents env) u fname"

text \<open>A run of the cascade: the attempts are in the order of the code, each attempt but the
  last yielded nothing, and the result is what the last attempt yielded.\<close>

definition first_success ::
  "env \<Rightarrow> string \<Rightarrow> string \<Rightarrow> strategy list \<times> download_result option \<Rightarrow> bool" where
  "first_success env u fname out =
     (sorted_wrt (<) (map stage (fst out))
      \<and> list_all (\<lambda>st. yield env u fname st = None) (butlast (fst out))
      \<and> snd out = (if fst out = [] then None else yield env u fname (last (fst out))))"

text \<open>The attempts so far are before stage \<open>k\<close> and have yielded nothing.\<close>

definition failed_before :: "env \<Rightarrow> string \<Rightarrow> string \<Rightarrow> nat \<Rightarrow> strategy list \<Rightarrow> bool" where
  "failed_before env u fname k log =
     (sorted_wrt (<) (map stage log)
      \<and> list_all (\<lambda>st. stage st < k \<and> yield env u fname st = None) log)"

text \<open>A result that is \<^verbatim>\<open>null\<close> or carries at least one byte.\<close>

definition nonempty_result :: "download_result option \<Rightarrow> bool" where
  "nonempty_result x = (case x of None \<Rightarrow> True | Some res \<Rightarrow> data (blob res) \<noteq> [])"

text \<open>
  The cascade as a list. \<open>plan\<close> lists, in the order of \<^verbatim>\<open>downloadFile\<close>, the
  strategies that are attempted as long as no attempt yields a result, each under its
  condition: the local handle when \<^verbatim>\<open>blobUrl && blobUrl.startsWith('blob:')\<close>
  (\<open>has_handle\<close>); nothing more when the URL itself starts with \<^verbatim>\<open>blob:\<close> or
  \<^verbatim>\<open>data:\<close> (\<open>is_local_url\<close>); the one-shot service when
  \<^verbatim>\<open>useApiAuth && apiAuthHeader\<close>; the low-level request object when the URL contains
  \<^verbatim>\<open>/secure/attachment/\<close> or \<^verbatim>\<open>/attachment/\<close> (\<open>is_attachment_url\<close>), with
  credentials and, after its \<^verbatim>\<open>onerror\<close>, without (\<open>low_level_plan\<close>); the
  same-origin fetch, and the permissive fetch when the same-origin response is not ok
  (\<open>fetch_plan\<close>); the second same-origin fetch when the last response is a 403 that is
  not \<^verbatim>\<open>opaque\<close>, under API authentication (\<open>after_plan\<close>); the low-level request
  object again after a rejected same-origin fetch or a last response that is not ok with
  status 403 or type \<^verbatim>\<open>opaque\<close>, and then the stream (\<open>again_plan\<close>); the stream alone
  when there is no response, when the response is \<^verbatim>\<open>opaque\<close>, when the last response
  is not ok with another status, and when the blob of an ok response cannot be read
  (\<open>fin_plan\<close>). \<open>attachment_plan\<close> is the part of the plan after the one-shot service.

  \<open>until_yield\<close> attempts the strategies of a list in order until one yields a result,
  and \<open>next_after x\<close> is the attempt that follows the attempt \<open>x\<close>.
\<close>

fun until_yield :: "('a \<Rightarrow> 'b option) \<Rightarrow> 'a list \<Rightarrow> 'a list" where
  "until_yield Y [] = []"
| "until_yield Y (x # xs) = (case Y x of None \<Rightarrow> x # until_yield Y xs | Some y \<Rightarrow> [x])"

fun next_after :: "'a \<Rightarrow> 'a list \<Rightarrow> 'a option" where
  "next_after x [] = None"
| "next_after x [y] = None"
| "next_after x (y # z # zs) = (if x = y then Some z else next_after x (z # zs))"

definition has_handle :: "string option \<Rightarrow> bool" where
  "has_handle blobUrl = (case blobUrl of None \<Rightarrow> False | Some bu \<Rightarrow> startsWith bu ''blob:'')"

definition is_local_url :: "string \<Rightarrow> bool" where
  "is_local_url u = (startsWith u ''blob:'' \<or> startsWith u ''data:'')"

definition is_attachment_url :: "string \<Rightarrow> bool" where
  "is_attachment_url u = (includes_str u ''/secure/attachment/'' \<or> includes_str u ''/attachment/'')"

definition low_level_plan :: "(bool \<Rightarrow> strategy) \<Rightarrow> xhr_outcome \<times> xhr_outcome \<Rightarrow> strategy list" where
  "low_level_plan S x = S True # (if fst x = XhrError then [S False] else [])"

definition again_plan :: "env \<Rightarrow> strategy list" where
  "again_plan env = low_level_plan LowLevelAgain (xhrAgain env) @ [Streaming]"

definition fin_plan :: "env \<Rightarrow> page_response \<Rightarrow> strategy list" where
  "fin_plan env r =
     (if \<not> ok r then (if status r = 403 \<or> rtype r = ''opaque'' then again_plan env else [Streaming])
      else if body_blob r = None then [Streaming]
      else [])"

definition after_plan :: "env \<Rightarrow> bool \<Rightarrow> page_response option \<Rightarrow> strategy list" where
  "after_plan env api response =
     (case response of
        None \<Rightarrow> [Streaming]
      | Some r \<Rightarrow>
          if rtype r = ''opaque'' then [Streaming]
          else if \<not> ok r \<and> status r = 403 \<and> api
          then SameOriginRetry
               # (case fetchRetry env of Inl e \<Rightarrow> again_plan env | Inr r3 \<Rightarrow> fin_plan env r3)
          else fin_plan env r)"

definition fetch_plan :: "env \<Rightarrow> string \<Rightarrow> bool \<Rightarrow> strategy list" where
  "fetch_plan env u api =
     SameOrigin (api \<and> includes_str u ''/rest/api/'')
     # (case fetchSameOrigin env of
          Inl e \<Rightarrow> again_plan env
        | Inr r1 \<Rightarrow>
            if ok r1 then after_plan env api (Some r1)
            else Permissive
                 # after_plan env api (case fetchInclude env of Inl e \<Rightarrow> None | Inr r2 \<Rightarrow> Some r2))"

definition attachment_plan :: "env \<Rightarrow> string \<Rightarrow> bool \<Rightarrow> strategy list" where
  "attachment_plan env u api =
     (if is_attachment_url u then low_level_plan LowLevelFirst (xhrFirst env) else [])
     @ fetch_plan env u api"

definition plan :: "env \<Rightarrow> string \<Rightarrow> string option \<Rightarrow> bool \<Rightarrow> string option \<Rightarrow> strategy list" where
  "plan env u blobUrl useApiAuth apiAuthHeader =
     (if has_handle blobUrl then [LocalHandle] else [])
     @ (if is_local_url u then []
        else (if useApiAuth \<and> truthy apiAuthHeader then [OneShot] else [])
             @ (if is_attachment_url u then low_level_plan LowLevelFirst (xhrFirst env) else [])
             @ fetch_plan env u (useApiAuth \<and> truthy apiAuthHeader))"

text \<open>
  Networks to run the cascade on: \<open>dead_network\<close> answers no request but the stream, which
  delivers a file of four bytes; \<open>ok_page\<close> is an ok response with a given blob,
  \<open>forbidden_page\<close> a response with status 403, and on \<open>forbidden_network\<close> the
  same-origin and the permissive fetch answer 403.
\<close>

definition ok_page :: "blob \<Rightarrow> page_response" where
  "ok_page b = \<lparr>ok = True, status = 200, statusText = ''OK'', rtype = ''basic'',
                content_type_header = Some (btype b), has_body = True, body_blob = Some b\<rparr>"

definition pdf_blob :: blob where
  "pdf_blob = \<lparr>data = [37, 80, 68, 70], btype = ''application/pdf''\<rparr>"

definition empty_blob :: blob where
  "empty_blob = \<lparr>data = [], btype = ''text/html''\<rparr>"

definition forbidden_page :: page_response where
  "forbidden_page = \<lparr>ok = False, status = 403, statusText = ''Forbidden'', rtype = ''cors'',
                      content_type_header = None, has_body = False, body_blob = None\<rparr>"

definition pdf_stream :: "requester_event list" where
  "pdf_stream = [Message (chunk_message ''17-a3'' [37, 80, 68, 70]),
                 Message (complete_message ''17-a3'' ''application/pdf'')]"

definition dead_network :: env where
  "dead_network =
     \<lparr>blobFetch = Inl ''Failed to fetch'', oneShot = None,
      xhrFirst = (XhrLoad 500 None, XhrError),
      fetchSameOrigin = Inl ''Failed to fetch'', fetchInclude = Inl ''Failed to fetch'',
      fetchRetry = Inl ''Failed to fetch'', xhrAgain = (XhrLoad 500 None, XhrError),
      streamId = ''17-a3'', streamEvents = pdf_stream\<rparr>"

definition forbidden_network :: env where
  "forbidden_network =
     dead_network\<lparr>fetchSameOrigin := Inr forbidden_page, fetchInclude := Inr forbidden_page\<rparr>"

text \<open>
  Two networks the cascade cannot tell apart: they differ at most in answers that the
  strategies themselves treat alike.
\<close>

definition same_answers :: "env \<Rightarrow> env \<Rightarrow> string \<Rightarrow> bool" where
  "same_answers a b fname =
     (local_handle (blobFetch a) fname = local_handle (blobFetch b) fname
      \<and> downloadFileViaBackgroundBlob (oneShot a) fname = downloadFileViaBackgroundBlob (oneShot b) fname
      \<and> downloadFileViaXHR (fst (xhrFirst a)) (snd (xhrFirst a)) fname
          = downloadFileViaXHR (fst (xhrFirst b)) (snd (xhrFirst b)) fname
      \<and> downloadFileViaXHR (fst (xhrAgain a)) (snd (xhrAgain a)) fname
          = downloadFileViaXHR (fst (xhrAgain b)) (snd (xhrAgain b)) fname
      \<and> fetchSameOrigin a = fetchSameOrigin b \<and> fetchInclude a = fetchInclude b
      \<and> fetchRetry a = fetchRetry b \<and> streamId a = streamId b
      \<and> streamEvents a = streamEvents b)"

text \<open>
  An attachment link of Jira Cloud: its title has no extension and the last dot of its URL
  is in the host name.
\<close>

definition design_notes :: attachment where
  "design_notes = \<lparr>att_name = ''Design notes'',
                    att_url = ''https://acme.atlassian.net/rest/api/3/attachment/content/10001''\<rparr>"

section \<open>Properties of the streaming handler\<close>

subsection \<open>The slices of one read\<close>

lemma post_chunks_Nil [simp]: "post_chunks s [] = s"
  by (simp add: post_chunks_def)

lemma post_chunks_fields [simp]:
  "pc (post_chunks s cs) = pc s" "disconnected (post_chunks s cs) = disconnected s"
  "f_requestId (post_chunks s cs) = f_requestId s" "f_contentType (post_chunks s cs) = f_contentType s"
  "f_url (post_chunks s cs) = f_url s"
  by (simp_all add: post_chunks_def)

lemma post_chunks_append: "post_chunks (post_chunks s cs) ds = post_chunks s (cs @ ds)"
  by (simp add: post_chunks_def)

lemma slice_loop_connected:
  "\<not> disconnected s \<Longrightarrow> slice_loop s b offset = Inr (post_chunks s (slices b offset))"
proof (induction s b offset rule: slice_loop.induct)
  case (1 s b offset)
  show ?case
  proof (cases "offset < length b")
    case True
    let ?s' = "s\<lparr>effects := effects s @ [PostMessage (chunk_message (f_requestId s) (slice b offset (offset + MAX_CHUNK_SIZE)))]\<rparr>"
    have p: "postMessage s (chunk_message (f_requestId s) (slice b offset (offset + MAX_CHUNK_SIZE))) = Inr ?s'"
      using "1.prems" by (simp add: postMessage_def)
    have "slice_loop ?s' b (offset + MAX_CHUNK_SIZE) = Inr (post_chunks ?s' (slices b (offset + MAX_CHUNK_SIZE)))"
      using "1.IH" [OF True "1.prems" p] "1.prems" by simp
    then show ?thesis
      using True "1.prems" p
      by (subst slice_loop.simps, subst slices.simps) (simp add: post_chunks_def)
  next
    case False
    then show ?thesis
      by (subst slice_loop.simps, subst slices.simps) simp
  qed
qed

lemma slice_loop_disconnected: "disconnected s \<Longrightarrow> slice_loop s b offset = Inr s"
  by (subst slice_loop.simps) simp

lemma concat_slices: "concat (slices b offset) = drop offset b"
proof (induction b offset rule: slices.induct)
  case (1 b offset)
  show ?case
  proof (cases "offset < length b")
    case True
    have "drop offset b = take MAX_CHUNK_SIZE (drop offset b) @ drop (offset + MAX_CHUNK_SIZE) b"
      by (metis add.commute append_take_drop_id drop_drop)
    then show ?thesis
      using True "1.IH" by (subst slices.simps) (simp add: slice_def)
  next
    case False
    then show ?thesis by (subst slices.simps) simp
  qed
qed

lemma slices_bounded: "c \<in> set (slices b offset) \<Longrightarrow> length c \<le> MAX_CHUNK_SIZE \<and> c \<noteq> []"
proof (induction b offset rule: slices.induct)
  case (1 b offset)
  show ?case
  proof (cases "offset < length b")
    case True
    then show ?thesis
      using "1.IH" "1.prems"
      by (subst (asm) slices.simps) (auto simp: slice_def MAX_CHUNK_SIZE_def)
  next
    case False
    then show ?thesis using "1.prems" by (subst (asm) slices.simps) simp
  qed
qed

lemma length_slices: "length (slices b offset) = (length b - offset + MAX_CHUNK_SIZE - 1) div MAX_CHUNK_SIZE"
proof (induction b offset rule: slices.induct)
  case (1 b offset)
  show ?case
  proof (cases "offset < length b")
    case True
    have "(length b - offset + MAX_CHUNK_SIZE - 1) div MAX_CHUNK_SIZE
          = Suc ((length b - (offset + MAX_CHUNK_SIZE) + MAX_CHUNK_SIZE - 1) div MAX_CHUNK_SIZE)"
      using True unfolding MAX_CHUNK_SIZE_def by (cases "offset + 65536 \<le> length b") auto
    then show ?thesis
      using True "1.IH" by (subst slices.simps) simp
  next
    case False
    then show ?thesis by (subst slices.simps) (simp add: MAX_CHUNK_SIZE_def)
  qed
qed

subsection \<open>An undisturbed download\<close>

lemma posted_append: "posted (es @ fs) = posted es @ posted fs"
  by (induction es rule: posted.induct) auto

lemma posted_map_PostMessage: "posted (map (\<lambda>c. PostMessage (g c)) cs) = map g cs"
  by (induction cs) auto

lemma relay_connected:
  "\<not> disconnected s \<Longrightarrow> relay s v = Inr (post_chunks s (pieces (Some v)))"
  by (simp add: relay_def pieces_def slice_loop_connected postMessage_def post_chunks_def)

lemma step_read_value:
  "pc s = AwaitRead \<Longrightarrow> \<not> disconnected s \<Longrightarrow>
   step s (ReadSettled (Inr (ReadValue v))) = post_chunks s (pieces v)"
  by (cases v) (simp_all add: relay_connected while_head_def pieces_def post_chunks_def)

lemma run_Cons: "run s (e # evs) = run (step s e) evs"
  by (simp add: run_def)

lemma run_Nil: "run s [] = s"
  by (simp add: run_def)

lemma run_append: "run s (es @ fs) = run (run s es) fs"
  by (simp add: run_def)

lemma run_reads:
  "pc s = AwaitRead \<Longrightarrow> \<not> disconnected s \<Longrightarrow>
   run s (map (\<lambda>v. ReadSettled (Inr (ReadValue v))) reads) = post_chunks s (concat (map pieces reads))"
proof (induction reads arbitrary: s)
  case Nil
  then show ?case by (simp add: run_Nil)
next
  case (Cons v reads)
  have "run s (map (\<lambda>v. ReadSettled (Inr (ReadValue v))) (v # reads))
        = run (post_chunks s (pieces v)) (map (\<lambda>v. ReadSettled (Inr (ReadValue v))) reads)"
    using Cons.prems by (simp add: run_Cons step_read_value del: step.simps)
  also have "\<dots> = post_chunks (post_chunks s (pieces v)) (concat (map pieces reads))"
    using Cons.prems by (intro Cons.IH) simp_all
  finally show ?case by (simp add: post_chunks_append)
qed

lemma run_served:
  assumes "u \<noteq> []" "ok r" "has_body r"
  shows "effects (run (onMessage (stream_request u rid)) (served r reads))
         = Fetch u (Some ''include'')
           # map (\<lambda>c. PostMessage (chunk_message rid c)) (concat (map pieces reads))
           @ [PostMessage (complete_message rid (response_contentType r))]"
proof -
  let ?s0 = "onMessage (stream_request u rid)"
  let ?s1 = "step ?s0 (FetchSettled (Inr r))"
  have s1: "?s1 = \<lparr>pc = AwaitRead, f_url = u, f_requestId = rid,
                   f_contentType = response_contentType r, disconnected = False,
                   effects = [Fetch u (Some ''include'')]\<rparr>"
    using assms
    by (simp add: onMessage_def stream_request_def after_fetch1_def after_response_def while_head_def)
  have "run ?s0 (served r reads)
        = step (run ?s1 (map (\<lambda>v. ReadSettled (Inr (ReadValue v))) reads)) (ReadSettled (Inr ReadDone))"
    by (simp add: served_def run_Cons run_append run_Nil del: step.simps)
  also have "run ?s1 (map (\<lambda>v. ReadSettled (Inr (ReadValue v))) reads)
             = post_chunks ?s1 (concat (map pieces reads))"
    by (rule run_reads) (simp_all add: s1 del: step.simps)
  finally have "run ?s0 (served r reads)
        = step (post_chunks ?s1 (concat (map pieces reads))) (ReadSettled (Inr ReadDone))" .
  then show ?thesis
    unfolding s1 by (simp add: post_chunks_def after_loop_def postMessage_def finally_block_def)
qed

lemma concat_pieces: "concat (concat (map pieces reads)) = body_of reads"
  by (induction reads) (auto simp: pieces_def body_of_def concat_slices split: option.splits)

lemma pieces_bounded: "c \<in> set (pieces v) \<Longrightarrow> length c \<le> MAX_CHUNK_SIZE"
  by (auto simp: pieces_def dest: slices_bounded split: option.splits if_splits)

lemma length_pieces:
  "length (pieces v) =
     (case v of None \<Rightarrow> 0
      | Some b \<Rightarrow> if b = [] then 1 else (length b + MAX_CHUNK_SIZE - 1) div MAX_CHUNK_SIZE)"
proof (cases v)
  case None
  then show ?thesis by (simp add: pieces_def)
next
  case (Some b)
  show ?thesis
  proof (cases "length b > MAX_CHUNK_SIZE")
    case True
    then show ?thesis using Some by (auto simp: pieces_def length_slices)
  next
    case False
    then have "b \<noteq> [] \<Longrightarrow> (length b + MAX_CHUNK_SIZE - 1) div MAX_CHUNK_SIZE = 1"
      by (cases b) (auto simp: MAX_CHUNK_SIZE_def)
    then show ?thesis using Some False by (auto simp: pieces_def)
  qed
qed

subsection \<open>Reassembly in the Requester\<close>

lemma receive_Cons: "receive q (e # evs) = receive (on_event q e) evs"
  by (simp add: receive_def)

lemma receive_Nil: "receive q [] = q"
  by (simp add: receive_def)

lemma receive_append: "receive q (es @ fs) = receive (receive q es) fs"
  by (simp add: receive_def)

lemma on_chunk_message:
  "r_requestId q = rid \<Longrightarrow> on_message q (chunk_message rid c) = store_chunks q [c]"
  by (simp add: on_message_def chunk_message_def store_chunks_def)

lemma store_chunks_fields [simp]:
  "r_requestId (store_chunks q cs) = r_requestId q"
  "r_filename (store_chunks q cs) = r_filename q"
  "r_contentType (store_chunks q cs) = r_contentType q"
  "settled (store_chunks q cs) = settled q"
  "resolved (store_chunks q cs) = resolved q"
  "chunks (store_chunks q cs) = chunks q @ filter (\<lambda>c. c \<noteq> []) cs"
  "totalLength (store_chunks q cs) = totalLength q + length (concat cs)"
  by (simp_all add: store_chunks_def)

lemma store_chunks_append: "store_chunks (store_chunks q cs) ds = store_chunks q (cs @ ds)"
  by (simp add: store_chunks_def)

lemma receive_chunks:
  "r_requestId q = rid \<Longrightarrow>
   receive q (map (\<lambda>c. Message (chunk_message rid c)) cs) = store_chunks q cs"
proof (induction cs arbitrary: q)
  case Nil
  then show ?case by (simp add: receive_Nil store_chunks_def)
next
  case (Cons c cs)
  have "receive q (map (\<lambda>c. Message (chunk_message rid c)) (c # cs))
        = receive (store_chunks q [c]) (map (\<lambda>c. Message (chunk_message rid c)) cs)"
    using Cons.prems by (simp add: receive_Cons on_chunk_message)
  also have "\<dots> = store_chunks (store_chunks q [c]) cs"
    using Cons.prems by (intro Cons.IH) simp
  finally show ?case by (simp add: store_chunks_append)
qed

lemma concat_filter_nonempty: "concat (filter (\<lambda>c. c \<noteq> []) cs) = concat cs"
  by (induction cs) auto

lemma assemble_fits:
  "offset + length (concat cs) \<le> length combined \<Longrightarrow>
   assemble cs combined offset
     = Some (take offset combined @ concat cs @ drop (offset + length (concat cs)) combined)"
proof (induction cs arbitrary: combined offset)
  case Nil
  then show ?case by simp
next
  case (Cons c cs)
  let ?combined' = "take offset combined @ c @ drop (offset + length c) combined"
  have fits: "offset + length c \<le> length combined"
    using Cons.prems by simp
  have len: "length ?combined' = length combined"
    using fits by simp
  have "assemble (c # cs) combined offset = assemble cs ?combined' (offset + length c)"
    using fits by (simp add: set_bytes_def)
  also have "\<dots> = Some (take (offset + length c) ?combined' @ concat cs
                        @ drop (offset + length c + length (concat cs)) ?combined')"
    using Cons.prems len by (intro Cons.IH) simp
  also have "take (offset + length c) ?combined' = take offset combined @ c"
    using fits by simp
  also have "drop (offset + length c + length (concat cs)) ?combined'
             = drop (offset + length (concat (c # cs))) combined"
    using fits by (simp add: add.assoc add.commute add.left_commute)
  finally show ?case by simp
qed

lemma assemble_exact:
  "n = length (concat cs) \<Longrightarrow> assemble cs (replicate n 0) 0 = Some (concat cs)"
  by (simp add: assemble_fits)

subsection \<open>What a step of the handler adds to its effects\<close>

lemma catch_block_effects:
  "effects (catch_block s e)
   = effects s @ (if disconnected s then [] else [PostMessage (error_message (f_requestId s) e)])"
  by (simp add: catch_block_def finally_block_def postMessage_def)

lemma catch_block_disconnected [simp]: "disconnected (catch_block s e) = disconnected s"
  by (simp add: catch_block_def finally_block_def postMessage_def)

lemma after_loop_effects:
  "effects (after_loop s)
   = effects s @ (if disconnected s then []
                  else [PostMessage (complete_message (f_requestId s) (f_contentType s))])"
  by (simp add: after_loop_def finally_block_def postMessage_def)

lemma after_loop_disconnected [simp]: "disconnected (after_loop s) = disconnected s"
  by (simp add: after_loop_def finally_block_def postMessage_def)

lemma while_head_effects:
  "effects (while_head s) = effects s"
  by (simp add: while_head_def after_loop_effects)

lemma while_head_disconnected [simp]: "disconnected (while_head s) = disconnected s"
  by (simp add: while_head_def)

lemma relay_disconnected:
  "disconnected s \<Longrightarrow> relay s b = Inr s \<or> (\<exists>e. relay s b = Inl e)"
  by (simp add: relay_def slice_loop_disconnected postMessage_def)

lemma within_ceiling_simps [simp]:
  "within_ceiling (Fetch u c)" "within_ceiling Abort"
  "within_ceiling (PostMessage (error_message rid e))"
  "within_ceiling (PostMessage (complete_message rid ct))"
  "within_ceiling (PostMessage (chunk_message rid b)) = (length b \<le> MAX_CHUNK_SIZE)"
  by (simp_all add: within_ceiling_def error_message_def complete_message_def chunk_message_def)

text \<open>What one step adds to the effects.\<close>

lemma step_adds:
  "\<exists>new. effects (step s ev) = effects s @ new \<and> list_all within_ceiling new
         \<and> (disconnected s \<longrightarrow> posted new = [] \<and> disconnected (step s ev))"
proof (cases ev)
  case Disconnect
  then show ?thesis by auto
next
  case (FetchSettled x)
  then show ?thesis
    by (cases "pc s"; cases x)
       (auto simp: catch_block_effects after_fetch1_def after_response_def while_head_effects Let_def)
next
  case (ReadSettled x)
  show ?thesis
  proof (cases "pc s = AwaitRead")
    case False
    then show ?thesis using ReadSettled by (cases "pc s") auto
  next
    case True
    show ?thesis
    proof (cases x)
      case (Inl e)
      then show ?thesis using True ReadSettled by (auto simp: catch_block_effects)
    next
      case (Inr rr)
      show ?thesis
      proof (cases rr)
        case ReadDone
        then show ?thesis using True ReadSettled Inr by (auto simp: after_loop_effects)
      next
        case (ReadValue v)
        show ?thesis
        proof (cases "disconnected s")
          case False
          have "step s ev = post_chunks s (pieces v)"
            using True False ReadSettled Inr ReadValue by (simp add: step_read_value del: step.simps)
          moreover have "list_all within_ceiling
                           (map (\<lambda>c. PostMessage (chunk_message (f_requestId s) c)) (pieces v))"
            by (auto simp: list_all_iff dest: pieces_bounded)
          ultimately show ?thesis using False by (auto simp: post_chunks_def)
        next
          case disc: True
          show ?thesis
          proof (cases v)
            case None
            then show ?thesis
              using True disc ReadSettled Inr ReadValue by (auto simp: while_head_effects)
          next
            case (Some b)
            from relay_disconnected [OF disc, of b] show ?thesis
              using True disc ReadSettled Inr ReadValue Some
              by (auto simp: while_head_effects catch_block_effects)
          qed
        qed
      qed
    qed
  qed
qed

lemma run_adds:
  "\<exists>new. effects (run s evs) = effects s @ new \<and> list_all within_ceiling new
         \<and> (disconnected s \<longrightarrow> posted new = [])"
proof (induction evs arbitrary: s)
  case Nil
  then show ?case by (simp add: run_Nil)
next
  case (Cons ev evs)
  obtain n1 where n1: "effects (step s ev) = effects s @ n1" "list_all within_ceiling n1"
      "disconnected s \<longrightarrow> posted n1 = [] \<and> disconnected (step s ev)"
    using step_adds [of s ev] by blast
  obtain n2 where n2: "effects (run (step s ev) evs) = effects (step s ev) @ n2"
      "list_all within_ceiling n2" "disconnected (step s ev) \<longrightarrow> posted n2 = []"
    using Cons.IH [of "step s ev"] by blast
  have "effects (run s (ev # evs)) = effects s @ (n1 @ n2)"
    using n1 n2 by (simp add: run_Cons del: step.simps)
  moreover have "list_all within_ceiling (n1 @ n2)"
    using n1 n2 by simp
  moreover have "disconnected s \<longrightarrow> posted (n1 @ n2) = []"
    using n1 n2 by (simp add: posted_append)
  ultimately show ?case by blast
qed

lemma posted_within_ceiling:
  "list_all within_ceiling es \<Longrightarrow>
   list_all (\<lambda>m. case chunk m of None \<Rightarrow> True | Some b \<Rightarrow> length b \<le> MAX_CHUNK_SIZE) (posted es)"
  by (induction es rule: posted.induct) (auto simp: within_ceiling_def)

subsection \<open>A session end to end\<close>

lemma session_served:
  assumes "u \<noteq> []" "ok r" "has_body r"
  shows "session rid u fname (served r reads)
         = on_message (store_chunks (open_session rid u fname) (concat (map pieces reads)))
             (complete_message rid (response_contentType r))"
proof -
  let ?q0 = "open_session rid u fname"
  have rid: "r_requestId ?q0 = rid"
    by (simp add: open_session_def)
  have "session rid u fname (served r reads)
        = receive ?q0 (map (\<lambda>c. Message (chunk_message rid c)) (concat (map pieces reads))
                        @ [Message (complete_message rid (response_contentType r))])"
    unfolding session_def Let_def
    by (simp add: open_session_def run_served [OF assms] posted_append posted_map_PostMessage o_def)
  also have "\<dots> = on_message (receive ?q0 (map (\<lambda>c. Message (chunk_message rid c)) (concat (map pieces reads))))
                      (complete_message rid (response_contentType r))"
    by (simp add: receive_append receive_Cons receive_Nil)
  finally show ?thesis
    by (simp add: receive_chunks [OF rid])
qed

lemma response_contentType_nonempty: "response_contentType r \<noteq> []"
  by (simp add: response_contentType_def split: option.splits)

subsection \<open>Claims about the chunked transfer\<close>

text \<open>
  Claim C1 (chunk round trip). The Requester opens a session and posts its request; the
  Privileged Fetch Service answers it for a response that is ok and has a body, whose
  reads arrive undisturbed; the port delivers the posted messages in order. Then the
  chunks the Requester has stored, concatenated in arrival order, are the body of the
  response byte for byte, and the accumulated length is the length of the body, for every
  sequence of reads of every length. The promise resolves once: with a blob of exactly
  these bytes when the body is not empty, and with \<^verbatim>\<open>null\<close> when it is empty (the
  chunk buffer is then empty as well).
\<close>

theorem chunk_round_trip:
  assumes "u \<noteq> []" "ok r" "has_body r"
  shows "concat (chunks (session rid u fname (served r reads))) = body_of reads
       \<and> totalLength (session rid u fname (served r reads)) = length (body_of reads)
       \<and> resolved (session rid u fname (served r reads))
           = [if body_of reads = [] then None
              else Some \<lparr>filename = fname,
                         blob = \<lparr>data = body_of reads, btype = response_contentType r\<rparr>\<rparr>]"
proof -
  let ?q = "store_chunks (open_session rid u fname) (concat (map pieces reads))"
  have ch: "concat (chunks ?q) = body_of reads"
    by (simp add: open_session_def concat_filter_nonempty concat_pieces)
  have tl: "totalLength ?q = length (body_of reads)"
    by (simp add: open_session_def concat_pieces)
  have rest: "r_requestId ?q = rid" "r_filename ?q = fname" "\<not> settled ?q" "resolved ?q = []"
    by (simp_all add: open_session_def)
  have "assemble (chunks ?q) (replicate (totalLength ?q) 0) 0 = Some (concat (chunks ?q))"
    by (rule assemble_exact) (simp only: ch tl)
  then have asm: "assemble (chunks ?q) (replicate (totalLength ?q) 0) 0 = Some (body_of reads)"
    by (simp only: ch)
  show ?thesis
  proof (cases "body_of reads = []")
    case True
    then show ?thesis
      unfolding session_served [OF assms]
      using ch tl rest
      by (simp add: on_message_def complete_message_def finalize_def Let_def)
  next
    case False
    then show ?thesis
      unfolding session_served [OF assms]
      using ch tl rest asm response_contentType_nonempty [of r]
      by (simp add: on_message_def complete_message_def finalize_def Let_def)
  qed
qed

text \<open>
  The round trip at a body of \<open>10 * MAX_CHUNK_SIZE + 37\<close> bytes that arrives in one read,
  followed by a read without a value, an empty read and a short one; and at the empty body.
\<close>

theorem chunk_round_trip_witness:
  "concat (chunks (session ''17-a3'' ''https://h/f.png'' ''f.png''
       (served ok_response [Some (replicate (10 * MAX_CHUNK_SIZE + 37) 7), None, Some [], Some [1, 2]])))
   = replicate (10 * MAX_CHUNK_SIZE + 37) 7 @ [1, 2]
   \<and> resolved (session ''17-a3'' ''https://h/f.png'' ''f.png'' (served ok_response []))
     = [None]"
  using chunk_round_trip [of "''https://h/f.png''" ok_response "''17-a3''" "''f.png''"
          "[Some (replicate (10 * MAX_CHUNK_SIZE + 37) 7), None, Some [], Some [1, 2]]"]
        chunk_round_trip [of "''https://h/f.png''" ok_response "''17-a3''" "''f.png''" "[]"]
  by (simp add: ok_response_def body_of_def)

text \<open>
  Claim C2 (message ceiling). \<open>MAX_CHUNK_SIZE\<close> is 65536, and whatever request starts the
  handler and whatever events follow, every message it posts that carries a chunk carries
  at most \<open>MAX_CHUNK_SIZE\<close> bytes: a larger read has been cut into slices.
\<close>

theorem chunk_size_ceiling:
  "MAX_CHUNK_SIZE = 65536
   \<and> list_all (\<lambda>m. case chunk m of None \<Rightarrow> True | Some b \<Rightarrow> length b \<le> MAX_CHUNK_SIZE)
        (posted (effects (run (onMessage req) evs)))"
proof -
  obtain new where new: "effects (run (onMessage req) evs) = effects (onMessage req) @ new"
      "list_all within_ceiling new"
    using run_adds [of "onMessage req" evs] by blast
  have "list_all within_ceiling (effects (onMessage req))"
    by (simp add: onMessage_def)
  then have "list_all within_ceiling (effects (run (onMessage req) evs))"
    using new by simp
  then show ?thesis
    by (simp add: posted_within_ceiling MAX_CHUNK_SIZE_def)
qed

text \<open>
  Claim C3 (number of chunk messages), as amended. The handler cuts each read on its own
  and never joins two reads: a read of \<open>n > 0\<close> bytes gives \<open>ceil (n / MAX_CHUNK_SIZE)\<close>
  chunk messages, an empty read gives one (empty) chunk message, a read without a value
  none. The number of chunk messages of an undisturbed download is the sum over its reads.
\<close>

theorem chunk_count_per_read:
  assumes "u \<noteq> []" "ok r" "has_body r"
  shows "length (filter (\<lambda>m. mtype m = ''chunk'')
                  (posted (effects (run (onMessage (stream_request u rid)) (served r reads)))))
         = (\<Sum>v\<leftarrow>reads. case v of None \<Rightarrow> 0
                          | Some b \<Rightarrow> if b = [] then 1
                                      else (length b + MAX_CHUNK_SIZE - 1) div MAX_CHUNK_SIZE)"
proof -
  have "filter (\<lambda>m. mtype m = ''chunk'')
          (posted (effects (run (onMessage (stream_request u rid)) (served r reads))))
        = map (chunk_message rid) (concat (map pieces reads))"
    by (simp add: run_served [OF assms] posted_append posted_map_PostMessage
          chunk_message_def complete_message_def filter_map o_def)
  moreover have "length (concat (map pieces reads))
        = (\<Sum>v\<leftarrow>reads. case v of None \<Rightarrow> 0
                          | Some b \<Rightarrow> if b = [] then 1
                                      else (length b + MAX_CHUNK_SIZE - 1) div MAX_CHUNK_SIZE)"
    by (induction reads) (simp_all add: length_pieces)
  ultimately show ?thesis by simp
qed

text \<open>A body of 500 KiB that arrives in a single read is posted in 8 chunk messages.\<close>

theorem chunk_count_per_read_witness:
  "length (filter (\<lambda>m. mtype m = ''chunk'')
      (posted (effects (run (onMessage (stream_request ''https://h/f.png'' ''17-a3''))
                            (served ok_response [Some (replicate (500 * 1024) 0)])))))
   = 8"
  using chunk_count_per_read [of "''https://h/f.png''" ok_response "''17-a3''"
          "[Some (replicate (500 * 1024) 0)]"]
  by (simp add: ok_response_def MAX_CHUNK_SIZE_def)

text \<open>
  The count of the claim as stated, \<open>ceil (L / MAX_CHUNK_SIZE)\<close> for a body of \<open>L\<close> bytes,
  fails when the body arrives in more than one read: two reads of one byte each are posted
  as two chunk messages, and \<open>ceil (2 / MAX_CHUNK_SIZE) = 1\<close>.
\<close>

theorem chunk_count_counterexample:
  "length (filter (\<lambda>m. mtype m = ''chunk'')
      (posted (effects (run (onMessage (stream_request ''https://h/f.png'' ''17-a3''))
                            (served ok_response [Some [1], Some [2]])))))
   \<noteq> (length (body_of [Some [1], Some [2]]) + MAX_CHUNK_SIZE - 1) div MAX_CHUNK_SIZE"
proof -
  have "length (filter (\<lambda>m. mtype m = ''chunk'')
      (posted (effects (run (onMessage (stream_request ''https://h/f.png'' ''17-a3''))
                            (served ok_response [Some [1], Some [2]]))))) = 2"
    by (subst run_served) (simp_all add: ok_response_def pieces_def MAX_CHUNK_SIZE_def
          chunk_message_def complete_message_def)
  moreover have "(length (body_of [Some [1], Some [2]]) + MAX_CHUNK_SIZE - 1) div MAX_CHUNK_SIZE = 1"
    by (simp add: body_of_def MAX_CHUNK_SIZE_def)
  ultimately show ?thesis by simp
qed

subsection \<open>A read of one byte more than the ceiling\<close>

lemma MAX_CHUNK_SIZE_pos: "0 < MAX_CHUNK_SIZE"
  by (simp add: MAX_CHUNK_SIZE_def)

lemma slices_two:
  "slices (replicate MAX_CHUNK_SIZE x @ [x]) 0 = [replicate MAX_CHUNK_SIZE x, [x]]"
proof -
  let ?b = "replicate MAX_CHUNK_SIZE x @ [x]"
  have third: "slices ?b (MAX_CHUNK_SIZE + MAX_CHUNK_SIZE) = []"
    using MAX_CHUNK_SIZE_pos by (subst slices.simps) simp
  have "take MAX_CHUNK_SIZE [x] = [x]"
    using MAX_CHUNK_SIZE_pos by (simp add: take_Cons')
  then have second: "slices ?b MAX_CHUNK_SIZE = [[x]]"
    using third by (subst slices.simps) (simp add: slice_def)
  show ?thesis
    using second by (subst slices.simps) (simp add: slice_def)
qed

text \<open>
  A read of \<open>MAX_CHUNK_SIZE + 1\<close> bytes is posted as a chunk of \<open>MAX_CHUNK_SIZE\<close> bytes and a
  chunk of one byte.
\<close>

theorem chunk_size_ceiling_witness:
  "posted (effects (run (onMessage (stream_request ''https://h/f.png'' ''17-a3''))
                        (served ok_response [Some (replicate MAX_CHUNK_SIZE 7 @ [7])])))
   = [chunk_message ''17-a3'' (replicate MAX_CHUNK_SIZE 7), chunk_message ''17-a3'' [7],
      complete_message ''17-a3'' ''image/png'']
   \<and> list_all (\<lambda>m. case chunk m of None \<Rightarrow> True | Some b \<Rightarrow> length b \<le> MAX_CHUNK_SIZE)
        (posted (effects (run (onMessage (stream_request ''https://h/f.png'' ''17-a3''))
                        (served ok_response [Some (replicate MAX_CHUNK_SIZE 7 @ [7])]))))"
proof -
  have "posted (effects (run (onMessage (stream_request ''https://h/f.png'' ''17-a3''))
                        (served ok_response [Some (replicate MAX_CHUNK_SIZE 7 @ [7])])))
   = [chunk_message ''17-a3'' (replicate MAX_CHUNK_SIZE 7), chunk_message ''17-a3'' [7],
      complete_message ''17-a3'' ''image/png'']"
    by (subst run_served)
       (simp_all add: ok_response_def pieces_def slices_two response_contentType_def)
  then show ?thesis
    using chunk_size_ceiling [of "stream_request ''https://h/f.png'' ''17-a3''"
            "served ok_response [Some (replicate MAX_CHUNK_SIZE 7 @ [7])]"]
    by simp
qed

subsection \<open>Cancellation\<close>

lemma run_disconnected:
  "disconnected s \<Longrightarrow> posted (effects (run s evs)) = posted (effects s)"
  using run_adds [of s evs] by (auto simp: posted_append)

text \<open>
  Claim C5 (cancellation stops production). When the port disconnects while a session is
  in flight (the handler has not finished), \<^verbatim>\<open>disconnectHandler\<close> aborts the controller
  whose signal the network request carries, and whatever events follow (reads that still
  deliver data, the end of the body, a rejected promise), the handler posts no further
  message for the session: no chunk, no \<^verbatim>\<open>complete\<close> and no \<^verbatim>\<open>error\<close>.
\<close>

theorem cancellation_stops_production:
  assumes "pc s \<noteq> Finished"
  shows "effects (step s Disconnect) = effects s @ [Abort]
       \<and> posted (effects (run (step s Disconnect) evs)) = posted (effects s)"
proof -
  have "disconnected (step s Disconnect)" and e: "effects (step s Disconnect) = effects s @ [Abort]"
    using assms by simp_all
  then have "posted (effects (run (step s Disconnect) evs)) = posted (effects (step s Disconnect))"
    by (intro run_disconnected)
  then show ?thesis
    using e by (simp add: posted_append)
qed

lemma first_chunk_received_eval:
  "first_chunk_received =
     \<lparr>pc = AwaitRead, f_url = ''https://h/f.png'', f_requestId = ''17-a3'',
      f_contentType = ''image/png'', disconnected = False,
      effects = [Fetch ''https://h/f.png'' (Some ''include''),
                 PostMessage (chunk_message ''17-a3'' [1, 2, 3])]\<rparr>"
  by (simp add: first_chunk_received_def run_def onMessage_def stream_request_def ok_response_def
        after_fetch1_def after_response_def response_contentType_def while_head_def relay_def
        postMessage_def MAX_CHUNK_SIZE_def)

text \<open>
  The Requester disconnects after the first chunk: the request is aborted, and a further
  read and the end of the body post nothing.
\<close>

theorem cancellation_stops_production_witness:
  "pc first_chunk_received \<noteq> Finished
   \<and> effects (step first_chunk_received Disconnect)
       = [Fetch ''https://h/f.png'' (Some ''include''),
          PostMessage (chunk_message ''17-a3'' [1, 2, 3]), Abort]
   \<and> posted (effects (run (step first_chunk_received Disconnect)
        [ReadSettled (Inr (ReadValue (Some [4, 5]))), ReadSettled (Inr ReadDone)]))
       = [chunk_message ''17-a3'' [1, 2, 3]]"
  using cancellation_stops_production [of first_chunk_received
          "[ReadSettled (Inr (ReadValue (Some [4, 5]))), ReadSettled (Inr ReadDone)]"]
  by (simp add: first_chunk_received_eval)

subsection \<open>The credential retry\<close>

lemma fetches_append: "fetches (es @ fs) = fetches es @ fetches fs"
  by (induction es rule: fetches.induct) auto

lemma fetches_map_PostMessage [simp]: "fetches (map (\<lambda>c. PostMessage (g c)) cs) = []"
  by (induction cs) auto

lemma catch_block_pc [simp]: "pc (catch_block s e) = Finished"
  by (simp add: catch_block_def finally_block_def postMessage_def)

lemma after_loop_pc [simp]: "pc (after_loop s) = Finished"
  by (simp add: after_loop_def finally_block_def postMessage_def)

lemma while_head_pc: "pc (while_head s) = (if disconnected s then Finished else AwaitRead)"
  by (simp add: while_head_def)

lemma step_no_fetch:
  assumes "pc s \<noteq> AwaitFetch1"
  shows "pc (step s ev) \<noteq> AwaitFetch1 \<and> fetches (effects (step s ev)) = fetches (effects s)"
proof (cases ev)
  case Disconnect
  then show ?thesis using assms by (simp add: fetches_append)
next
  case (FetchSettled x)
  then show ?thesis
    using assms
    by (cases "pc s"; cases x)
       (auto simp: catch_block_effects after_response_def while_head_effects while_head_pc
          fetches_append Let_def)
next
  case (ReadSettled x)
  show ?thesis
  proof (cases "pc s = AwaitRead")
    case False
    then show ?thesis using ReadSettled assms by (cases "pc s") auto
  next
    case True
    show ?thesis
    proof (cases x)
      case (Inl e)
      then show ?thesis using True ReadSettled by (auto simp: catch_block_effects fetches_append)
    next
      case (Inr rr)
      show ?thesis
      proof (cases rr)
        case ReadDone
        then show ?thesis
          using True ReadSettled Inr by (auto simp: after_loop_effects fetches_append)
      next
        case (ReadValue v)
        show ?thesis
        proof (cases "disconnected s")
          case False
          have "step s ev = post_chunks s (pieces v)"
            using True False ReadSettled Inr ReadValue by (simp add: step_read_value del: step.simps)
          then show ?thesis
            using True by (simp add: post_chunks_def fetches_append)
        next
          case disc: True
          show ?thesis
          proof (cases v)
            case None
            then show ?thesis
              using True disc ReadSettled Inr ReadValue
              by (auto simp: while_head_effects while_head_pc)
          next
            case (Some b)
            from relay_disconnected [OF disc, of b] show ?thesis
              using True disc ReadSettled Inr ReadValue Some
              by (auto simp: while_head_effects while_head_pc catch_block_effects)
          qed
        qed
      qed
    qed
  qed
qed

lemma run_no_fetch:
  "pc s \<noteq> AwaitFetch1 \<Longrightarrow> fetches (effects (run s evs)) = fetches (effects s)"
proof (induction evs arbitrary: s)
  case Nil
  then show ?case by (simp add: run_Nil)
next
  case (Cons ev evs)
  from step_no_fetch [OF Cons.prems, of ev]
  have "pc (step s ev) \<noteq> AwaitFetch1" "fetches (effects (step s ev)) = fetches (effects s)"
    by blast+
  then show ?case
    using Cons.IH [of "step s ev"] by (simp add: run_Cons del: step.simps)
qed

text \<open>
  Claim C4 (credential retry). The handler first fetches with \<^verbatim>\<open>credentials: 'include'\<close>.
  When the first response is not ok and has status 403 or type \<^verbatim>\<open>opaque\<close> it fetches
  once more, without a \<^verbatim>\<open>credentials\<close> option; otherwise (another response, or a
  rejected first fetch) it never fetches again; in no run is there a third fetch. When the
  final response (the second if there was a retry, the first otherwise) is not ok, the
  handler posts exactly one message, of type \<^verbatim>\<open>error\<close>, with the request id of the
  session and the text \<^verbatim>\<open>HTTP <status>: <statusText>\<close>, and has finished.
\<close>

theorem credential_retry:
  assumes "u \<noteq> []"
  shows "fetches (effects (onMessage (stream_request u rid))) = [(u, Some ''include'')]
    \<and> fetches (effects (run (step (onMessage (stream_request u rid)) (FetchSettled (Inr r))) evs))
        = (if \<not> ok r \<and> (status r = 403 \<or> rtype r = ''opaque'')
           then [(u, Some ''include''), (u, None)] else [(u, Some ''include'')])
    \<and> fetches (effects (run (step (onMessage (stream_request u rid)) (FetchSettled (Inl e))) evs))
        = [(u, Some ''include'')]
    \<and> (\<not> ok r \<and> \<not> (status r = 403 \<or> rtype r = ''opaque'') \<longrightarrow>
         posted (effects (step (onMessage (stream_request u rid)) (FetchSettled (Inr r))))
           = [\<lparr>mtype = ''error'', requestId = rid, chunk = None, contentType = None,
              error = Some (''HTTP '' @ string_of_nat (status r) @ '': '' @ statusText r)\<rparr>]
         \<and> pc (step (onMessage (stream_request u rid)) (FetchSettled (Inr r))) = Finished)
    \<and> (\<not> ok r \<and> (status r = 403 \<or> rtype r = ''opaque'') \<and> \<not> ok r2 \<longrightarrow>
         posted (effects (run (onMessage (stream_request u rid))
                              [FetchSettled (Inr r), FetchSettled (Inr r2)]))
           = [\<lparr>mtype = ''error'', requestId = rid, chunk = None, contentType = None,
              error = Some (''HTTP '' @ string_of_nat (status r2) @ '': '' @ statusText r2)\<rparr>]
         \<and> pc (run (onMessage (stream_request u rid))
                  [FetchSettled (Inr r), FetchSettled (Inr r2)]) = Finished)"
proof -
  let ?s0 = "onMessage (stream_request u rid)"
  have s0: "?s0 = \<lparr>pc = AwaitFetch1, f_url = u, f_requestId = rid, f_contentType = [],
                   disconnected = False, effects = [Fetch u (Some ''include'')]\<rparr>"
    using assms by (simp add: onMessage_def stream_request_def)
  have a: "fetches (effects ?s0) = [(u, Some ''include'')]"
    by (simp add: s0)
  have pc1: "pc (step ?s0 (FetchSettled (Inr r))) \<noteq> AwaitFetch1"
    unfolding s0 by (simp add: after_fetch1_def after_response_def while_head_pc Let_def)
  have f1: "fetches (effects (step ?s0 (FetchSettled (Inr r))))
            = (if \<not> ok r \<and> (status r = 403 \<or> rtype r = ''opaque'')
               then [(u, Some ''include''), (u, None)] else [(u, Some ''include'')])"
    unfolding s0
    by (simp add: after_fetch1_def after_response_def while_head_effects catch_block_effects
          fetches_append Let_def)
  have b: "fetches (effects (run (step ?s0 (FetchSettled (Inr r))) evs))
        = (if \<not> ok r \<and> (status r = 403 \<or> rtype r = ''opaque'')
           then [(u, Some ''include''), (u, None)] else [(u, Some ''include'')])"
    using run_no_fetch [OF pc1, of evs] f1 by simp
  have pc1': "pc (step ?s0 (FetchSettled (Inl e))) \<noteq> AwaitFetch1"
    unfolding s0 by simp
  have "fetches (effects (step ?s0 (FetchSettled (Inl e)))) = [(u, Some ''include'')]"
    unfolding s0 by (simp add: catch_block_effects fetches_append)
  then have c: "fetches (effects (run (step ?s0 (FetchSettled (Inl e))) evs)) = [(u, Some ''include'')]"
    using run_no_fetch [OF pc1', of evs] by simp
  have d: "\<not> ok r \<and> \<not> (status r = 403 \<or> rtype r = ''opaque'') \<longrightarrow>
         posted (effects (step ?s0 (FetchSettled (Inr r)))) = [\<lparr>mtype = ''error'', requestId = rid, chunk = None, contentType = None,
              error = Some (''HTTP '' @ string_of_nat (status r) @ '': '' @ statusText r)\<rparr>]
         \<and> pc (step ?s0 (FetchSettled (Inr r))) = Finished"
    unfolding s0
    by (simp add: after_fetch1_def after_response_def catch_block_effects error_message_def
          http_error_def)
  have e: "\<not> ok r \<and> (status r = 403 \<or> rtype r = ''opaque'') \<and> \<not> ok r2 \<longrightarrow>
         posted (effects (run ?s0 [FetchSettled (Inr r), FetchSettled (Inr r2)]))
           = [\<lparr>mtype = ''error'', requestId = rid, chunk = None, contentType = None,
              error = Some (''HTTP '' @ string_of_nat (status r2) @ '': '' @ statusText r2)\<rparr>]
         \<and> pc (run ?s0 [FetchSettled (Inr r), FetchSettled (Inr r2)]) = Finished"
    unfolding s0
    by (auto simp: run_def after_fetch1_def after_response_def catch_block_effects
          error_message_def http_error_def)
  from a b c d e show ?thesis by blast
qed

lemma string_of_nat_404: "string_of_nat 404 = ''404''"
  by (simp add: string_of_nat.simps)

text \<open>A 403 followed by a 404 on the retry; and a 404 at once, which is not retried.\<close>

theorem credential_retry_witness:
  "fetches (effects (run (step (onMessage (stream_request ''https://h/f.png'' ''17-a3''))
                              (FetchSettled (Inr forbidden_response)))
                        [FetchSettled (Inr missing_response)]))
     = [(''https://h/f.png'', Some ''include''), (''https://h/f.png'', None)]
   \<and> fetches (effects (run (step (onMessage (stream_request ''https://h/f.png'' ''17-a3''))
                              (FetchSettled (Inr missing_response))) []))
     = [(''https://h/f.png'', Some ''include'')]
   \<and> posted (effects (run (onMessage (stream_request ''https://h/f.png'' ''17-a3''))
                         [FetchSettled (Inr forbidden_response), FetchSettled (Inr missing_response)]))
     = [\<lparr>mtype = ''error'', requestId = ''17-a3'', chunk = None, contentType = None,
         error = Some ''HTTP 404: Not Found''\<rparr>]
   \<and> pc (run (onMessage (stream_request ''https://h/f.png'' ''17-a3''))
            [FetchSettled (Inr forbidden_response), FetchSettled (Inr missing_response)]) = Finished"
  using credential_retry [of "''https://h/f.png''" "''17-a3''" forbidden_response
          "[FetchSettled (Inr missing_response)]" "''x''" missing_response]
        credential_retry [of "''https://h/f.png''" "''17-a3''" missing_response "[]" "''x''"
          missing_response]
  by (simp add: forbidden_response_def missing_response_def string_of_nat_404)

section \<open>Properties of the Requester\<close>

text \<open>
  Claim C6 (requestId isolation). A message whose \<^verbatim>\<open>requestId\<close> is not the one of the
  session leaves the whole state of the session as it was: the chunk buffer, the
  accumulated length, the content type, the timer and the result.
\<close>

theorem requestId_isolation:
  "requestId m \<noteq> r_requestId q \<Longrightarrow> on_event q (Message m) = q"
  by (simp add: on_message_def)

lemma first_chunk_stored_eval:
  "first_chunk_stored =
     \<lparr>r_requestId = ''17-a3'', r_filename = ''f.png'', chunks = [[1, 2]], totalLength = 2,
      r_contentType = ''application/octet-stream'', settled = False, timer_pending = True,
      outbox = [stream_request ''https://h/f.png'' ''17-a3''], resolved = [],
      port_disconnects = 0\<rparr>"
  by (simp add: first_chunk_stored_def receive_def open_session_def on_message_def chunk_message_def)

text \<open>A chunk and a \<^verbatim>\<open>complete\<close> message of another request, after the first chunk.\<close>

theorem requestId_isolation_witness:
  "requestId (chunk_message ''99-zz'' [9, 9]) \<noteq> r_requestId first_chunk_stored
   \<and> on_event first_chunk_stored (Message (chunk_message ''99-zz'' [9, 9])) = first_chunk_stored
   \<and> on_event first_chunk_stored (Message (complete_message ''99-zz'' ''text/html''))
       = first_chunk_stored
   \<and> chunks first_chunk_stored = [[1, 2]]"
  using requestId_isolation [of "chunk_message ''99-zz'' [9, 9]" first_chunk_stored]
        requestId_isolation [of "complete_message ''99-zz'' ''text/html''" first_chunk_stored]
  by (simp add: first_chunk_stored_eval chunk_message_def complete_message_def)

subsection \<open>The promise settles once\<close>

lemma finalize_settles:
  "settled (finalize q x)"
  "resolved (finalize q x) = (if settled q then resolved q else resolved q @ [x])"
  "port_disconnects (finalize q x) = (if settled q then port_disconnects q else port_disconnects q + 1)"
  "chunks (finalize q x) = chunks q" "totalLength (finalize q x) = totalLength q"
  "timer_pending (finalize q x) = timer_pending q"
  by (simp_all add: finalize_def)

lemma on_event_inv:
  assumes "session_inv q"
  shows "session_inv (on_event q ev)"
proof (cases ev)
  case (Message m)
  have asm: "assemble (chunks q) (replicate (totalLength q) 0) 0 = Some (concat (chunks q))"
    using assms by (intro assemble_exact) (simp add: session_inv_def)
  show ?thesis
    using assms asm Message
    by (auto simp: session_inv_def on_message_def finalize_settles Let_def split: option.splits)
next
  case PortDisconnect
  then show ?thesis using assms by (auto simp: session_inv_def finalize_settles)
next
  case Timeout
  then show ?thesis using assms by (auto simp: session_inv_def finalize_settles)
qed

lemma on_event_settled:
  assumes "session_inv q"
  shows "settled (on_event q ev) = (settled q \<or> terminal (r_requestId q) ev)"
proof (cases ev)
  case (Message m)
  have asm: "assemble (chunks q) (replicate (totalLength q) 0) 0 = Some (concat (chunks q))"
    using assms by (intro assemble_exact) (simp add: session_inv_def)
  show ?thesis
    using assms asm Message
    by (auto simp: session_inv_def on_message_def finalize_settles terminal_def Let_def
             split: option.splits)
next
  case PortDisconnect
  then show ?thesis by (simp add: finalize_settles terminal_def)
next
  case Timeout
  then show ?thesis using assms by (auto simp: session_inv_def finalize_settles terminal_def)
qed

lemma on_event_requestId [simp]: "r_requestId (on_event q ev) = r_requestId q"
  by (cases ev) (auto simp: on_message_def finalize_def Let_def split: option.splits)

lemma on_event_after_settled:
  "settled q \<Longrightarrow> resolved (on_event q ev) = resolved q
                 \<and> port_disconnects (on_event q ev) = port_disconnects q \<and> settled (on_event q ev)"
  by (cases ev) (auto simp: on_message_def finalize_def Let_def split: option.splits)

lemma receive_inv:
  "session_inv q \<Longrightarrow>
   session_inv (receive q evs) \<and> r_requestId (receive q evs) = r_requestId q
   \<and> settled (receive q evs) = (settled q \<or> list_ex (terminal (r_requestId q)) evs)"
proof (induction evs arbitrary: q)
  case Nil
  then show ?case by (simp add: receive_Nil)
next
  case (Cons ev evs)
  have "session_inv (on_event q ev)"
    using Cons.prems by (rule on_event_inv)
  from Cons.IH [OF this] on_event_settled [OF Cons.prems, of ev]
  show ?case by (auto simp: receive_Cons simp del: on_event.simps)
qed

lemma receive_after_settled:
  "settled q \<Longrightarrow> resolved (receive q evs) = resolved q
                 \<and> port_disconnects (receive q evs) = port_disconnects q"
proof (induction evs arbitrary: q)
  case Nil
  then show ?case by (simp add: receive_Nil)
next
  case (Cons ev evs)
  from on_event_after_settled [OF Cons.prems, of ev] Cons.IH [of "on_event q ev"]
  show ?case by (simp add: receive_Cons del: on_event.simps)
qed

lemma open_session_inv: "session_inv (open_session rid u fname)"
  by (simp add: session_inv_def open_session_def)

text \<open>
  Claim C10 (settled exactly once). The terminal events of a session are a \<^verbatim>\<open>complete\<close>
  or \<^verbatim>\<open>error\<close> message with its request id, the port's disconnect and the timeout.
  After any sequence of events \<^verbatim>\<open>resolve\<close> has been called once if a terminal event
  is among them and not at all otherwise, \<^verbatim>\<open>port.disconnect()\<close> has been called as
  often, and once a terminal event has occurred no later event changes the resolved value
  or disconnects again.
\<close>

theorem settles_exactly_once:
  "length (resolved (receive (open_session rid u fname) evs))
     = (if list_ex (terminal rid) evs then 1 else 0)
   \<and> port_disconnects (receive (open_session rid u fname) evs)
     = (if list_ex (terminal rid) evs then 1 else 0)
   \<and> settled (receive (open_session rid u fname) evs) = list_ex (terminal rid) evs
   \<and> (list_ex (terminal rid) evs \<longrightarrow>
        resolved (receive (open_session rid u fname) (evs @ later))
          = resolved (receive (open_session rid u fname) evs)
        \<and> port_disconnects (receive (open_session rid u fname) (evs @ later)) = 1)"
proof -
  let ?q = "receive (open_session rid u fname) evs"
  have inv: "session_inv ?q" and st: "settled ?q = list_ex (terminal rid) evs"
    using receive_inv [OF open_session_inv, of rid u fname evs]
    by (simp_all add: open_session_def)
  have len: "length (resolved ?q) = (if list_ex (terminal rid) evs then 1 else 0)"
    and pd: "port_disconnects ?q = (if list_ex (terminal rid) evs then 1 else 0)"
    using inv st by (simp_all add: session_inv_def)
  have "list_ex (terminal rid) evs \<longrightarrow>
        resolved (receive (open_session rid u fname) (evs @ later)) = resolved ?q
        \<and> port_disconnects (receive (open_session rid u fname) (evs @ later)) = 1"
    using receive_after_settled [of ?q later] st pd by (simp add: receive_append)
  with len pd st show ?thesis by blast
qed

text \<open>
  A completed download of two bytes, followed by a disconnect, the timeout and a late
  \<^verbatim>\<open>error\<close> message.
\<close>

theorem settles_exactly_once_witness:
  "resolved (receive (open_session ''17-a3'' ''https://h/f.png'' ''f.png'')
      ([Message (chunk_message ''17-a3'' [1, 2]), Message (complete_message ''17-a3'' ''image/png'')]
        @ [PortDisconnect, Timeout, Message (error_message ''17-a3'' ''late'')]))
   = [Some \<lparr>filename = ''f.png'', blob = \<lparr>data = [1, 2], btype = ''image/png''\<rparr>\<rparr>]
   \<and> port_disconnects (receive (open_session ''17-a3'' ''https://h/f.png'' ''f.png'')
      ([Message (chunk_message ''17-a3'' [1, 2]), Message (complete_message ''17-a3'' ''image/png'')]
        @ [PortDisconnect, Timeout, Message (error_message ''17-a3'' ''late'')])) = 1"
proof -
  have t: "list_ex (terminal ''17-a3'')
        [Message (chunk_message ''17-a3'' [1, 2]), Message (complete_message ''17-a3'' ''image/png'')]"
    by (simp add: terminal_def complete_message_def chunk_message_def)
  have r: "resolved (receive (open_session ''17-a3'' ''https://h/f.png'' ''f.png'')
      [Message (chunk_message ''17-a3'' [1, 2]), Message (complete_message ''17-a3'' ''image/png'')])
   = [Some \<lparr>filename = ''f.png'', blob = \<lparr>data = [1, 2], btype = ''image/png''\<rparr>\<rparr>]"
    by (simp add: receive_def open_session_def on_message_def chunk_message_def
          complete_message_def finalize_def set_bytes_def Let_def)
  from t settles_exactly_once [of "''17-a3''" "''https://h/f.png''" "''f.png''"
        "[Message (chunk_message ''17-a3'' [1, 2]), Message (complete_message ''17-a3'' ''image/png'')]"
        "[PortDisconnect, Timeout, Message (error_message ''17-a3'' ''late'')]"]
  have "resolved (receive (open_session ''17-a3'' ''https://h/f.png'' ''f.png'')
      ([Message (chunk_message ''17-a3'' [1, 2]), Message (complete_message ''17-a3'' ''image/png'')]
        @ [PortDisconnect, Timeout, Message (error_message ''17-a3'' ''late'')]))
     = resolved (receive (open_session ''17-a3'' ''https://h/f.png'' ''f.png'')
      [Message (chunk_message ''17-a3'' [1, 2]), Message (complete_message ''17-a3'' ''image/png'')])
    \<and> port_disconnects (receive (open_session ''17-a3'' ''https://h/f.png'' ''f.png'')
      ([Message (chunk_message ''17-a3'' [1, 2]), Message (complete_message ''17-a3'' ''image/png'')]
        @ [PortDisconnect, Timeout, Message (error_message ''17-a3'' ''late'')])) = 1"
    by blast
  with r show ?thesis by (simp only:) 
qed

section \<open>Properties of the strategy cascade\<close>

subsection \<open>First success wins, in the order of the code\<close>

lemma failed_before_mono: "failed_before env u fname k log \<Longrightarrow> k \<le> k' \<Longrightarrow> failed_before env u fname k' log"
  by (auto simp: failed_before_def list_all_iff)

lemma failed_before_snoc:
  "failed_before env u fname (stage st) log \<Longrightarrow> yield env u fname st = None \<Longrightarrow> stage st < k
   \<Longrightarrow> failed_before env u fname k (log @ [st])"
  by (auto simp: failed_before_def list_all_iff sorted_wrt_append)

lemma first_success_snoc:
  "failed_before env u fname (stage st) log \<Longrightarrow> x = yield env u fname st
   \<Longrightarrow> first_success env u fname (log @ [st], x)"
  by (auto simp: failed_before_def first_success_def list_all_iff sorted_wrt_append)

lemma first_success_failed:
  "failed_before env u fname k log \<Longrightarrow> first_success env u fname (log, None)"
  by (cases log rule: rev_cases)
     (auto simp: failed_before_def first_success_def list_all_iff sorted_wrt_append)

lemma via_stream_first_success:
  "failed_before env u fname 9 log \<Longrightarrow> first_success env u fname (via_stream env u fname log)"
  unfolding via_stream_def by (rule first_success_snoc) simp_all

lemma xhr_then_stream_first_success:
  assumes "failed_before env u fname 7 log"
  shows "first_success env u fname (xhr_then_stream env u fname log)"
proof (cases "fst (xhrAgain env)")
  case (XhrLoad st resp)
  have fb: "failed_before env u fname (stage (LowLevelAgain True)) log"
    using assms by simp
  show ?thesis
  proof (cases "xhr_onload st resp fname")
    case None
    have "failed_before env u fname 9 (log @ [LowLevelAgain True])"
      by (rule failed_before_snoc) (use fb None XhrLoad in \<open>simp_all add: xhr_yield_def\<close>)
    then show ?thesis
      using None XhrLoad
      by (simp add: xhr_then_stream_def downloadFileViaXHR_def via_stream_first_success)
  next
    case (Some res)
    have "first_success env u fname (log @ [LowLevelAgain True], Some res)"
      by (rule first_success_snoc) (use fb Some XhrLoad in \<open>simp_all add: xhr_yield_def\<close>)
    then show ?thesis
      using Some XhrLoad by (simp add: xhr_then_stream_def downloadFileViaXHR_def)
  qed
next
  case XhrTimeout
  have "failed_before env u fname 9 (log @ [LowLevelAgain True])"
    by (rule failed_before_snoc) (use assms XhrTimeout in \<open>simp_all add: xhr_yield_def\<close>)
  then show ?thesis
    using XhrTimeout
    by (simp add: xhr_then_stream_def downloadFileViaXHR_def via_stream_first_success)
next
  case XhrError
  have fb1: "failed_before env u fname (stage (LowLevelAgain False)) (log @ [LowLevelAgain True])"
    by (rule failed_before_snoc) (use assms XhrError in \<open>simp_all add: xhr_yield_def\<close>)
  show ?thesis
  proof (cases "xhr_yield (snd (xhrAgain env)) fname")
    case None
    have "failed_before env u fname 9 ((log @ [LowLevelAgain True]) @ [LowLevelAgain False])"
      by (rule failed_before_snoc) (use fb1 None in \<open>simp_all\<close>)
    then have "first_success env u fname
                 (via_stream env u fname (log @ [LowLevelAgain True, LowLevelAgain False]))"
      by (simp add: via_stream_first_success)
    then show ?thesis
      using None XhrError
      by (auto simp: xhr_then_stream_def downloadFileViaXHR_def xhr_yield_def
               split: xhr_outcome.splits)
  next
    case (Some res)
    have "first_success env u fname ((log @ [LowLevelAgain True]) @ [LowLevelAgain False], Some res)"
      by (rule first_success_snoc) (use fb1 Some in \<open>simp_all\<close>)
    then show ?thesis
      using Some XhrError
      by (auto simp: xhr_then_stream_def downloadFileViaXHR_def xhr_yield_def
               split: xhr_outcome.splits)
  qed
qed

text \<open>The last attempt \<open>st\<close> was a fetch that resolved with \<open>r\<close>.\<close>

lemma finish_first_success:
  assumes "failed_before env u fname (stage st) log" "stage st < 7"
    and "yield env u fname st = (if ok r then blob_of r fname else None)"
  shows "first_success env u fname (finish env u fname (log @ [st]) r)"
proof (cases "ok r")
  case False
  have "failed_before env u fname 7 (log @ [st])"
    by (rule failed_before_snoc) (use assms False in \<open>simp_all\<close>)
  then have "failed_before env u fname 9 (log @ [st])"
      and "failed_before env u fname 7 (log @ [st])"
    by (auto intro: failed_before_mono)
  then show ?thesis
    using False
    by (auto simp: finish_def xhr_then_stream_first_success via_stream_first_success)
next
  case True
  show ?thesis
  proof (cases "blob_of r fname")
    case None
    have fb: "failed_before env u fname 9 (log @ [st])"
      by (rule failed_before_snoc) (use assms True None in \<open>simp_all\<close>)
    show ?thesis
      using True None fb
      by (auto simp: finish_def blob_of_def via_stream_first_success
               split: option.splits if_splits intro: first_success_failed)
  next
    case (Some res)
    have "first_success env u fname (log @ [st], Some res)"
      by (rule first_success_snoc) (use assms True Some in \<open>simp_all\<close>)
    then show ?thesis
      using True Some
      by (auto simp: finish_def blob_of_def split: option.splits if_splits)
  qed
qed

lemma failed_before_Nil: "failed_before env u fname k []"
  by (simp add: failed_before_def)

lemma after_fetches_first_success:
  assumes fb: "failed_before env u fname (stage st) log" and st: "stage st < 6"
    and y: "yield env u fname st
            = (case response of
                 None \<Rightarrow> None
               | Some r \<Rightarrow> if ok r \<and> rtype r \<noteq> ''opaque'' then blob_of r fname else None)"
  shows "first_success env u fname
           (after_fetches env u fname useApiAuth apiAuthHeader (log @ [st]) response)"
proof (cases response)
  case None
  have "failed_before env u fname 9 (log @ [st])"
    by (rule failed_before_snoc) (use fb st y None in \<open>simp_all\<close>)
  then show ?thesis
    using None by (simp add: after_fetches_def via_stream_first_success)
next
  case (Some r)
  show ?thesis
  proof (cases "rtype r = ''opaque''")
    case True
    have "failed_before env u fname 9 (log @ [st])"
      by (rule failed_before_snoc) (use fb st y Some True in \<open>simp_all\<close>)
    then show ?thesis
      using Some True by (simp add: after_fetches_def via_stream_first_success)
  next
    case nop: False
    show ?thesis
    proof (cases "\<not> ok r \<and> status r = 403 \<and> useApiAuth \<and> truthy apiAuthHeader")
      case False
      have "first_success env u fname (finish env u fname (log @ [st]) r)"
        by (rule finish_first_success) (use fb st y Some nop in \<open>simp_all\<close>)
      then show ?thesis
        using Some nop False by (auto simp: after_fetches_def)
    next
      case True
      have fb2: "failed_before env u fname (stage SameOriginRetry) (log @ [st])"
        by (rule failed_before_snoc) (use fb st y Some True in \<open>simp_all\<close>)
      show ?thesis
      proof (cases "fetchRetry env")
        case (Inl e)
        have "failed_before env u fname 7 ((log @ [st]) @ [SameOriginRetry])"
          by (rule failed_before_snoc) (use fb2 Inl in \<open>simp_all\<close>)
        then have "first_success env u fname
                     (xhr_then_stream env u fname ((log @ [st]) @ [SameOriginRetry]))"
          by (rule xhr_then_stream_first_success)
        then show ?thesis
          using Some nop True Inl by (simp add: after_fetches_def)
      next
        case (Inr r3)
        have "first_success env u fname
                (finish env u fname ((log @ [st]) @ [SameOriginRetry]) r3)"
          by (rule finish_first_success) (use fb2 Inr in \<open>simp_all\<close>)
        then show ?thesis
          using Some nop True Inr by (simp add: after_fetches_def)
      qed
    qed
  qed
qed

lemma fetch_cascade_first_success:
  assumes "failed_before env u fname 4 log"
  shows "first_success env u fname (fetch_cascade env u fname useApiAuth apiAuthHeader log)"
proof -
  define st1 where "st1 = SameOrigin (useApiAuth \<and> truthy apiAuthHeader \<and> includes_str u ''/rest/api/'')"
  have fb0: "failed_before env u fname (stage st1) log"
    using assms by (simp add: st1_def)
  show ?thesis
  proof (cases "fetchSameOrigin env")
    case (Inl e)
    have "failed_before env u fname 7 (log @ [st1])"
      by (rule failed_before_snoc) (use fb0 Inl in \<open>simp_all add: st1_def\<close>)
    then have "first_success env u fname (xhr_then_stream env u fname (log @ [st1]))"
      by (rule xhr_then_stream_first_success)
    then show ?thesis
      using Inl by (simp add: fetch_cascade_def st1_def)
  next
    case (Inr r1)
    show ?thesis
    proof (cases "ok r1")
      case True
      have "first_success env u fname
              (after_fetches env u fname useApiAuth apiAuthHeader (log @ [st1]) (Some r1))"
        by (rule after_fetches_first_success) (use fb0 Inr True in \<open>simp_all add: st1_def\<close>)
      then show ?thesis
        using Inr True by (simp add: fetch_cascade_def st1_def)
    next
      case False
      have fb1: "failed_before env u fname (stage Permissive) (log @ [st1])"
        by (rule failed_before_snoc) (use fb0 Inr False in \<open>simp_all add: st1_def\<close>)
      have "first_success env u fname
              (after_fetches env u fname useApiAuth apiAuthHeader ((log @ [st1]) @ [Permissive])
                 (case fetchInclude env of Inl e \<Rightarrow> None | Inr r2 \<Rightarrow> Some r2))"
        by (rule after_fetches_first_success) (use fb1 in \<open>simp_all split: sum.splits\<close>)
      then show ?thesis
        using Inr False by (simp add: fetch_cascade_def st1_def)
    qed
  qed
qed

lemma attachment_step_first_success:
  assumes fb1: "failed_before env u fname 2 log"
  shows "first_success env u fname (attachment_step env u fname useApiAuth apiAuthHeader log)"
proof (cases "includes_str u ''/secure/attachment/'' \<or> includes_str u ''/attachment/''")
  case False
  have "failed_before env u fname 4 log"
    using fb1 by (rule failed_before_mono) simp
  then have "first_success env u fname (fetch_cascade env u fname useApiAuth apiAuthHeader log)"
    by (rule fetch_cascade_first_success)
  then show ?thesis
    using False by (simp add: attachment_step_def)
next
  case True
  show ?thesis
  proof (cases "fst (xhrFirst env)")
    case (XhrLoad st resp)
    show ?thesis
    proof (cases "xhr_onload st resp fname")
      case None
      have "failed_before env u fname 4 (log @ [LowLevelFirst True])"
        by (rule failed_before_snoc) (use fb1 XhrLoad None in \<open>simp_all add: xhr_yield_def\<close>)
      then have "first_success env u fname
          (fetch_cascade env u fname useApiAuth apiAuthHeader (log @ [LowLevelFirst True]))"
        by (rule fetch_cascade_first_success)
      then show ?thesis
        using True XhrLoad None by (simp add: attachment_step_def downloadFileViaXHR_def)
    next
      case (Some res)
      have "first_success env u fname (log @ [LowLevelFirst True], Some res)"
        by (rule first_success_snoc) (use fb1 XhrLoad Some in \<open>simp_all add: xhr_yield_def\<close>)
      then show ?thesis
        using True XhrLoad Some by (simp add: attachment_step_def downloadFileViaXHR_def)
    qed
  next
    case XhrTimeout
    have "failed_before env u fname 4 (log @ [LowLevelFirst True])"
      by (rule failed_before_snoc) (use fb1 XhrTimeout in \<open>simp_all add: xhr_yield_def\<close>)
    then have "first_success env u fname
        (fetch_cascade env u fname useApiAuth apiAuthHeader (log @ [LowLevelFirst True]))"
      by (rule fetch_cascade_first_success)
    then show ?thesis
      using True XhrTimeout by (simp add: attachment_step_def downloadFileViaXHR_def)
  next
    case XhrError
    have fb2: "failed_before env u fname (stage (LowLevelFirst False)) (log @ [LowLevelFirst True])"
      by (rule failed_before_snoc) (use fb1 XhrError in \<open>simp_all add: xhr_yield_def\<close>)
    have x: "downloadFileViaXHR (fst (xhrFirst env)) (snd (xhrFirst env)) fname
             = ([True, False], xhr_yield (snd (xhrFirst env)) fname)"
      using XhrError
      by (simp add: downloadFileViaXHR_def xhr_yield_def split: xhr_outcome.splits)
    show ?thesis
    proof (cases "xhr_yield (snd (xhrFirst env)) fname")
      case None
      have "failed_before env u fname 4 ((log @ [LowLevelFirst True]) @ [LowLevelFirst False])"
        by (rule failed_before_snoc) (use fb2 None in \<open>simp_all\<close>)
      then have "first_success env u fname
          (fetch_cascade env u fname useApiAuth apiAuthHeader
             ((log @ [LowLevelFirst True]) @ [LowLevelFirst False]))"
        by (rule fetch_cascade_first_success)
      then show ?thesis
        using True None by (simp add: attachment_step_def x)
    next
      case (Some res)
      have "first_success env u fname ((log @ [LowLevelFirst True]) @ [LowLevelFirst False], Some res)"
        by (rule first_success_snoc) (use fb2 Some in \<open>simp_all\<close>)
      then show ?thesis
        using True Some by (simp add: attachment_step_def x)
    qed
  qed
qed

lemma api_step_first_success:
  assumes fb0: "failed_before env u fname 1 log"
  shows "first_success env u fname (api_step env u fname useApiAuth apiAuthHeader log)"
proof (cases "useApiAuth \<and> truthy apiAuthHeader")
  case False
  have "failed_before env u fname 2 log"
    using fb0 by (rule failed_before_mono) simp
  then have "first_success env u fname (attachment_step env u fname useApiAuth apiAuthHeader log)"
    by (rule attachment_step_first_success)
  then show ?thesis
    using False by (auto simp: api_step_def)
next
  case True
  show ?thesis
  proof (cases "downloadFileViaBackgroundBlob (oneShot env) fname")
    case None
    have "failed_before env u fname 2 (log @ [OneShot])"
      by (rule failed_before_snoc) (use fb0 None in \<open>simp_all\<close>)
    then have "first_success env u fname
        (attachment_step env u fname useApiAuth apiAuthHeader (log @ [OneShot]))"
      by (rule attachment_step_first_success)
    then show ?thesis
      using True None by (simp add: api_step_def)
  next
    case (Some res)
    have "first_success env u fname (log @ [OneShot], Some res)"
      by (rule first_success_snoc) (use fb0 Some in \<open>simp_all\<close>)
    then show ?thesis
      using True Some by (simp add: api_step_def)
  qed
qed

lemma network_step_first_success:
  assumes fb0: "failed_before env u fname 1 log"
  shows "first_success env u fname (network_step env u fname useApiAuth apiAuthHeader log)"
  using first_success_failed [OF fb0] api_step_first_success [OF fb0]
  by (simp add: network_step_def)

lemma downloadFile_first_success:
  "first_success env u fname (downloadFile env u fname blobUrl useApiAuth apiAuthHeader)"
proof (cases "case blobUrl of None \<Rightarrow> False | Some bu \<Rightarrow> bu \<noteq> [] \<and> startsWith bu ''blob:''")
  case False
  have "first_success env u fname (network_step env u fname useApiAuth apiAuthHeader [])"
    by (rule network_step_first_success) (rule failed_before_Nil)
  then show ?thesis
    using False by (simp add: downloadFile_def)
next
  case True
  show ?thesis
  proof (cases "local_handle (blobFetch env) fname")
    case None
    have "failed_before env u fname 1 ([] @ [LocalHandle])"
      by (rule failed_before_snoc) (use None in \<open>simp_all add: failed_before_Nil\<close>)
    then have "first_success env u fname
                 (network_step env u fname useApiAuth apiAuthHeader ([] @ [LocalHandle]))"
      by (rule network_step_first_success)
    then show ?thesis
      using True None by (simp add: downloadFile_def)
  next
    case (Some res)
    have "first_success env u fname ([] @ [LocalHandle], Some res)"
      by (rule first_success_snoc) (use Some in \<open>simp_all add: failed_before_Nil\<close>)
    then show ?thesis
      using True Some by (simp add: downloadFile_def)
  qed
qed

lemma nonempty_result_simps [simp]:
  "nonempty_result None" "nonempty_result (Some res) = (data (blob res) \<noteq> [])"
  by (simp_all add: nonempty_result_def)

subsection \<open>No empty payload is returned\<close>

lemma on_event_nonempty:
  "list_all nonempty_result (resolved q) \<Longrightarrow> list_all nonempty_result (resolved (on_event q ev))"
  by (cases ev) (auto simp: on_message_def finalize_def Let_def split: option.splits)

lemma receive_nonempty:
  "list_all nonempty_result (resolved q) \<Longrightarrow> list_all nonempty_result (resolved (receive q evs))"
proof (induction evs arbitrary: q)
  case Nil
  then show ?case by (simp add: receive_Nil)
next
  case (Cons ev evs)
  from Cons.IH [OF on_event_nonempty [OF Cons.prems, of ev]]
  show ?case by (simp add: receive_Cons del: on_event.simps)
qed

lemma downloadFileViaBackground_nonempty:
  "nonempty_result (downloadFileViaBackground rid evs u fname)"
proof -
  have "list_all nonempty_result (resolved (receive (open_session rid u fname) (evs @ [Timeout])))"
    by (rule receive_nonempty) (simp add: open_session_def)
  then show ?thesis
    by (cases "resolved (receive (open_session rid u fname) (evs @ [Timeout]))")
       (simp_all add: downloadFileViaBackground_def)
qed

lemma yield_nonempty: "nonempty_result (yield env u fname st)"
proof (cases st)
  case Streaming
  then show ?thesis by (simp add: downloadFileViaBackground_nonempty)
qed (auto simp: nonempty_result_def local_handle_def downloadFileViaBackgroundBlob_def
       xhr_yield_def xhr_onload_def blob_of_def split: option.splits sum.splits xhr_outcome.splits)

lemma downloadFile_nonempty:
  "nonempty_result (snd (downloadFile env u fname blobUrl useApiAuth apiAuthHeader))"
  using downloadFile_first_success [of env u fname blobUrl useApiAuth apiAuthHeader]
    yield_nonempty [of env u fname "last (fst (downloadFile env u fname blobUrl useApiAuth apiAuthHeader))"]
  by (simp add: first_success_def split: if_splits)

lemma empty_session_fails:
  "downloadFileViaBackground rid
     (replicate n (Message (chunk_message rid [])) @ Message (complete_message rid ct) # evs) u fname
   = None"
proof -
  let ?q0 = "open_session rid u fname"
  have "receive ?q0 (replicate n (Message (chunk_message rid []))) = ?q0"
    by (induction n) (simp_all add: receive_Nil receive_Cons on_message_def chunk_message_def
          open_session_def)
  then have "receive ?q0 (replicate n (Message (chunk_message rid [])) @ [Message (complete_message rid ct)])
             = on_message ?q0 (complete_message rid ct)"
    by (simp add: receive_append receive_Cons receive_Nil)
  moreover have "settled (on_message ?q0 (complete_message rid ct))"
    and "resolved (on_message ?q0 (complete_message rid ct)) = [None]"
    by (simp_all add: on_message_def complete_message_def open_session_def finalize_def Let_def)
  ultimately have "resolved (receive ?q0 (replicate n (Message (chunk_message rid []))
                      @ Message (complete_message rid ct) # evs @ [Timeout])) = [None]"
    using receive_after_settled [of "on_message ?q0 (complete_message rid ct)" "evs @ [Timeout]"]
          receive_append [of ?q0 "replicate n (Message (chunk_message rid [])) @ [Message (complete_message rid ct)]" "evs @ [Timeout]"]
    by simp
  then show ?thesis
    by (simp add: downloadFileViaBackground_def)
qed

subsection \<open>Networks that the cascade cannot tell apart\<close>

lemma pdf_stream_received:
  "receive (open_session ''17-a3'' u fname) pdf_stream
   = (open_session ''17-a3'' u fname)
       \<lparr>chunks := [[37, 80, 68, 70]], totalLength := 4, r_contentType := ''application/pdf'',
        settled := True, timer_pending := False,
        resolved := [Some \<lparr>filename = fname, blob = pdf_blob\<rparr>], port_disconnects := 1\<rparr>"
  by (simp add: pdf_stream_def receive_def open_session_def on_message_def chunk_message_def
        complete_message_def finalize_def set_bytes_def pdf_blob_def Let_def)

lemma pdf_stream_result:
  "downloadFileViaBackground ''17-a3'' pdf_stream u fname = Some \<lparr>filename = fname, blob = pdf_blob\<rparr>"
  by (simp add: downloadFileViaBackground_def receive_append pdf_stream_received receive_Cons
        receive_Nil)


lemma same_answers_via_stream:
  "same_answers a b fname \<Longrightarrow> via_stream a u fname log = via_stream b u fname log"
  by (simp add: same_answers_def via_stream_def)

lemma same_answers_xhr_then_stream:
  "same_answers a b fname \<Longrightarrow> xhr_then_stream a u fname log = xhr_then_stream b u fname log"
  using same_answers_via_stream [of a b fname u]
  by (auto simp: xhr_then_stream_def same_answers_def split: prod.splits option.splits)

lemma same_answers_finish:
  "same_answers a b fname \<Longrightarrow> finish a u fname log r = finish b u fname log r"
  using same_answers_via_stream [of a b fname u] same_answers_xhr_then_stream [of a b fname u]
  by (auto simp: finish_def split: option.splits)

lemma same_answers_after_fetches:
  assumes "same_answers a b fname"
  shows "after_fetches a u fname useApiAuth apiAuthHeader log response
         = after_fetches b u fname useApiAuth apiAuthHeader log response"
proof -
  have "fetchRetry a = fetchRetry b"
    using assms by (simp add: same_answers_def)
  then show ?thesis
    using same_answers_via_stream [OF assms, of u] same_answers_xhr_then_stream [OF assms, of u]
      same_answers_finish [OF assms, of u]
    by (auto simp: after_fetches_def split: option.splits sum.splits)
qed

lemma same_answers_fetch_cascade:
  assumes "same_answers a b fname"
  shows "fetch_cascade a u fname useApiAuth apiAuthHeader log
         = fetch_cascade b u fname useApiAuth apiAuthHeader log"
proof -
  have "fetchSameOrigin a = fetchSameOrigin b" "fetchInclude a = fetchInclude b"
    using assms by (simp_all add: same_answers_def)
  then show ?thesis
    using same_answers_xhr_then_stream [OF assms, of u]
      same_answers_after_fetches [OF assms, of u useApiAuth apiAuthHeader]
    by (auto simp: fetch_cascade_def split: sum.splits)
qed

lemma same_answers_attachment_step:
  assumes "same_answers a b fname"
  shows "attachment_step a u fname useApiAuth apiAuthHeader log
         = attachment_step b u fname useApiAuth apiAuthHeader log"
proof -
  have "downloadFileViaXHR (fst (xhrFirst a)) (snd (xhrFirst a)) fname
          = downloadFileViaXHR (fst (xhrFirst b)) (snd (xhrFirst b)) fname"
    using assms by (simp add: same_answers_def)
  then show ?thesis
    using same_answers_fetch_cascade [OF assms, of u useApiAuth apiAuthHeader]
    by (auto simp: attachment_step_def split: prod.splits option.splits)
qed

lemma same_answers_downloadFile:
  assumes "same_answers a b fname"
  shows "downloadFile a u fname blobUrl useApiAuth apiAuthHeader
         = downloadFile b u fname blobUrl useApiAuth apiAuthHeader"
proof -
  have "local_handle (blobFetch a) fname = local_handle (blobFetch b) fname"
    "downloadFileViaBackgroundBlob (oneShot a) fname = downloadFileViaBackgroundBlob (oneShot b) fname"
    using assms by (simp_all add: same_answers_def)
  then show ?thesis
    using same_answers_attachment_step [OF assms, of u useApiAuth apiAuthHeader]
    by (auto simp: downloadFile_def network_step_def api_step_def split: option.splits)
qed

lemmas cascade_defs =
  downloadFile_def network_step_def api_step_def attachment_step_def fetch_cascade_def
  after_fetches_def finish_def xhr_then_stream_def via_stream_def local_handle_def
  downloadFileViaBackgroundBlob_def downloadFileViaXHR_def xhr_onload_def truthy_def

subsection \<open>The strategies attempted\<close>

text \<open>
  The attempts of \<^verbatim>\<open>downloadFile\<close> are the strategies of the plan up to the first one
  that yields a result (\<open>downloadFile_log\<close>); what follows are the conditions under which
  a strategy is in the plan, and the attempt that follows one that yielded nothing.
\<close>

lemma until_yield_single [simp]: "until_yield Y [x] = [x]"
  by (cases "Y x") simp_all

lemma until_yield_failed [simp]: "Y x = None \<Longrightarrow> until_yield Y (x # xs) = x # until_yield Y xs"
  by simp

lemma until_yield_hit: "Y x \<noteq> None \<Longrightarrow> until_yield Y (x # xs) = [x]"
  by (cases "Y x") simp_all

lemma until_yield_last: "(Y x \<noteq> None \<Longrightarrow> xs = []) \<Longrightarrow> until_yield Y (x # xs) = x # until_yield Y xs"
  by (cases "Y x") auto

declare until_yield.simps(2) [simp del]

lemma via_stream_log: "fst (via_stream env u fname log) = log @ [Streaming]"
  by (simp add: via_stream_def)

lemma xhr_then_stream_log:
  "fst (xhr_then_stream env u fname log) = log @ until_yield (yield env u fname) (again_plan env)"
proof (cases "fst (xhrAgain env)")
  case (XhrLoad st resp)
  then show ?thesis
    by (cases "xhr_onload st resp fname")
       (simp_all add: xhr_then_stream_def downloadFileViaXHR_def again_plan_def low_level_plan_def
          via_stream_log xhr_yield_def until_yield_hit)
next
  case XhrTimeout
  then show ?thesis
    by (simp add: xhr_then_stream_def downloadFileViaXHR_def again_plan_def low_level_plan_def
          via_stream_log xhr_yield_def)
next
  case XhrError
  have x: "downloadFileViaXHR (fst (xhrAgain env)) (snd (xhrAgain env)) fname
           = ([True, False], xhr_yield (snd (xhrAgain env)) fname)"
    using XhrError by (simp add: downloadFileViaXHR_def xhr_yield_def split: xhr_outcome.splits)
  show ?thesis
  proof (cases "xhr_yield (snd (xhrAgain env)) fname")
    case None
    then show ?thesis
      unfolding xhr_then_stream_def x
      using XhrError
      by (simp add: again_plan_def low_level_plan_def via_stream_log xhr_yield_def)
  next
    case (Some res)
    then show ?thesis
      unfolding xhr_then_stream_def x
      using XhrError
      by (simp add: again_plan_def low_level_plan_def xhr_yield_def until_yield_hit)
  qed
qed

lemma finish_log:
  "fst (finish env u fname log r) = log @ until_yield (yield env u fname) (fin_plan env r)"
  by (auto simp: finish_def fin_plan_def xhr_then_stream_log via_stream_log split: option.splits)

lemma fin_plan_after_payload: "ok r \<Longrightarrow> blob_of r fname \<noteq> None \<Longrightarrow> fin_plan env r = []"
  by (auto simp: fin_plan_def blob_of_def split: option.splits)

lemma after_fetches_log:
  "fst (after_fetches env u fname useApiAuth apiAuthHeader log response)
   = log @ until_yield (yield env u fname) (after_plan env (useApiAuth \<and> truthy apiAuthHeader) response)"
proof (cases response)
  case None
  then show ?thesis by (simp add: after_fetches_def after_plan_def via_stream_log)
next
  case (Some r)
  show ?thesis
  proof (cases "rtype r = ''opaque''")
    case True
    then show ?thesis using Some by (simp add: after_fetches_def after_plan_def via_stream_log)
  next
    case nop: False
    show ?thesis
    proof (cases "\<not> ok r \<and> status r = 403 \<and> useApiAuth \<and> truthy apiAuthHeader")
      case False
      then show ?thesis
        using Some nop by (auto simp: after_fetches_def after_plan_def finish_log)
    next
      case True
      show ?thesis
      proof (cases "fetchRetry env")
        case (Inl e)
        then show ?thesis
          using Some nop True
          by (simp add: after_fetches_def after_plan_def xhr_then_stream_log)
      next
        case (Inr r3)
        have "until_yield (yield env u fname) (SameOriginRetry # fin_plan env r3)
              = SameOriginRetry # until_yield (yield env u fname) (fin_plan env r3)"
          by (rule until_yield_last) (use Inr in \<open>auto simp: fin_plan_after_payload split: if_splits\<close>)
        then show ?thesis
          using Some nop True Inr
          by (simp add: after_fetches_def after_plan_def finish_log)
      qed
    qed
  qed
qed

lemma after_plan_after_payload:
  "ok r \<Longrightarrow> rtype r \<noteq> ''opaque'' \<Longrightarrow> blob_of r fname \<noteq> None \<Longrightarrow> after_plan env api (Some r) = []"
  by (simp add: after_plan_def fin_plan_after_payload)

lemma fetch_cascade_log:
  "fst (fetch_cascade env u fname useApiAuth apiAuthHeader log)
   = log @ until_yield (yield env u fname) (fetch_plan env u (useApiAuth \<and> truthy apiAuthHeader))"
proof (cases "fetchSameOrigin env")
  case (Inl e)
  then show ?thesis
    by (simp add: fetch_cascade_def fetch_plan_def xhr_then_stream_log)
next
  case (Inr r1)
  show ?thesis
  proof (cases "ok r1")
    case True
    have "until_yield (yield env u fname)
            (SameOrigin (useApiAuth \<and> truthy apiAuthHeader \<and> includes_str u ''/rest/api/'')
             # after_plan env (useApiAuth \<and> truthy apiAuthHeader) (Some r1))
          = SameOrigin (useApiAuth \<and> truthy apiAuthHeader \<and> includes_str u ''/rest/api/'')
            # until_yield (yield env u fname) (after_plan env (useApiAuth \<and> truthy apiAuthHeader) (Some r1))"
      by (rule until_yield_last)
         (use Inr True in \<open>auto simp: after_plan_after_payload split: if_splits\<close>)
    then show ?thesis
      using Inr True by (simp add: fetch_cascade_def fetch_plan_def after_fetches_log)
  next
    case False
    have p: "until_yield (yield env u fname)
               (Permissive # after_plan env (useApiAuth \<and> truthy apiAuthHeader)
                  (case fetchInclude env of Inl e \<Rightarrow> None | Inr r2 \<Rightarrow> Some r2))
             = Permissive # until_yield (yield env u fname)
                 (after_plan env (useApiAuth \<and> truthy apiAuthHeader)
                    (case fetchInclude env of Inl e \<Rightarrow> None | Inr r2 \<Rightarrow> Some r2))"
      by (rule until_yield_last)
         (auto simp: after_plan_after_payload split: if_splits sum.splits)
    show ?thesis
      using Inr False by (simp add: fetch_cascade_def fetch_plan_def after_fetches_log p)
  qed
qed

lemma until_yield_append:
  "until_yield Y (xs @ ys)
   = (if list_all (\<lambda>x. Y x = None) xs then xs @ until_yield Y ys else until_yield Y xs)"
  by (induction xs) (auto simp: until_yield.simps split: option.splits)

lemma low_level_first_log:
  "(case downloadFileViaXHR (fst (xhrFirst env)) (snd (xhrFirst env)) fname of
      (creds, Some res) \<Rightarrow> (log @ map LowLevelFirst creds, Some res)
    | (creds, None) \<Rightarrow> (log @ map LowLevelFirst creds, None))
   = (log @ until_yield (yield env u fname) (low_level_plan LowLevelFirst (xhrFirst env)),
      snd (downloadFileViaXHR (fst (xhrFirst env)) (snd (xhrFirst env)) fname))"
proof (cases "fst (xhrFirst env)")
  case (XhrLoad st resp)
  then show ?thesis
    by (cases "xhr_onload st resp fname")
       (simp_all add: downloadFileViaXHR_def low_level_plan_def)
next
  case XhrTimeout
  then show ?thesis by (simp add: downloadFileViaXHR_def low_level_plan_def)
next
  case XhrError
  have x: "downloadFileViaXHR (fst (xhrFirst env)) (snd (xhrFirst env)) fname
           = ([True, False], xhr_yield (snd (xhrFirst env)) fname)"
    using XhrError by (simp add: downloadFileViaXHR_def xhr_yield_def split: xhr_outcome.splits)
  show ?thesis
    unfolding x using XhrError
    by (cases "xhr_yield (snd (xhrFirst env)) fname")
       (simp_all add: low_level_plan_def xhr_yield_def)
qed

lemma low_level_first_failed:
  "snd (downloadFileViaXHR (fst (xhrFirst env)) (snd (xhrFirst env)) fname) = None
   \<longleftrightarrow> list_all (\<lambda>st. yield env u fname st = None) (low_level_plan LowLevelFirst (xhrFirst env))"
  by (cases "fst (xhrFirst env)"; cases "snd (xhrFirst env)")
     (auto simp: downloadFileViaXHR_def low_level_plan_def xhr_yield_def)

lemma attachment_step_log:
  "fst (attachment_step env u fname useApiAuth apiAuthHeader log)
   = log @ until_yield (yield env u fname)
       ((if is_attachment_url u then low_level_plan LowLevelFirst (xhrFirst env) else [])
        @ fetch_plan env u (useApiAuth \<and> truthy apiAuthHeader))"
proof (cases "is_attachment_url u")
  case False
  then show ?thesis
    by (simp add: attachment_step_def is_attachment_url_def fetch_cascade_log)
next
  case True
  obtain creds x where d: "downloadFileViaXHR (fst (xhrFirst env)) (snd (xhrFirst env)) fname = (creds, x)"
    by (cases "downloadFileViaXHR (fst (xhrFirst env)) (snd (xhrFirst env)) fname")
  from low_level_first_log [where env = env and fname = fname and log = log and u = u] d
  have l: "log @ map LowLevelFirst creds
           = log @ until_yield (yield env u fname) (low_level_plan LowLevelFirst (xhrFirst env))"
    by (cases x) simp_all
  from low_level_first_failed [where env = env and fname = fname and u = u] d
  have f: "x = None \<longleftrightarrow> list_all (\<lambda>st. yield env u fname st = None)
                          (low_level_plan LowLevelFirst (xhrFirst env))"
    by simp
  show ?thesis
  proof (cases x)
    case None
    have "until_yield (yield env u fname) (low_level_plan LowLevelFirst (xhrFirst env))
          = low_level_plan LowLevelFirst (xhrFirst env)"
      using f None until_yield_append [of "yield env u fname" "low_level_plan LowLevelFirst (xhrFirst env)" "[]"]
      by simp
    then show ?thesis
      using True None d l f
      by (simp add: attachment_step_def is_attachment_url_def fetch_cascade_log until_yield_append)
  next
    case (Some res)
    then show ?thesis
      using True d l f
      by (simp add: attachment_step_def is_attachment_url_def until_yield_append)
  qed
qed

lemma api_step_log:
  "fst (api_step env u fname useApiAuth apiAuthHeader log)
   = log @ until_yield (yield env u fname)
       ((if useApiAuth \<and> truthy apiAuthHeader then [OneShot] else [])
        @ (if is_attachment_url u then low_level_plan LowLevelFirst (xhrFirst env) else [])
        @ fetch_plan env u (useApiAuth \<and> truthy apiAuthHeader))"
proof (cases "useApiAuth \<and> truthy apiAuthHeader")
  case False
  then show ?thesis
    using attachment_step_log [of env u fname useApiAuth apiAuthHeader log]
    by (auto simp: api_step_def)
next
  case True
  show ?thesis
  proof (cases "downloadFileViaBackgroundBlob (oneShot env) fname")
    case None
    then show ?thesis
      using True attachment_step_log [of env u fname useApiAuth apiAuthHeader "log @ [OneShot]"]
      by (simp add: api_step_def)
  next
    case (Some res)
    then show ?thesis
      using True by (simp add: api_step_def until_yield_hit)
  qed
qed

lemma has_handle_iff:
  "has_handle blobUrl = (case blobUrl of None \<Rightarrow> False | Some bu \<Rightarrow> bu \<noteq> [] \<and> startsWith bu ''blob:'')"
  by (cases blobUrl) (auto simp: has_handle_def)

lemma downloadFile_log:
  "fst (downloadFile env u fname blobUrl useApiAuth apiAuthHeader)
   = until_yield (yield env u fname) (plan env u blobUrl useApiAuth apiAuthHeader)"
proof -
  have net: "fst (network_step env u fname useApiAuth apiAuthHeader log)
             = log @ until_yield (yield env u fname)
                 (if is_local_url u then []
                  else (if useApiAuth \<and> truthy apiAuthHeader then [OneShot] else [])
                       @ (if is_attachment_url u then low_level_plan LowLevelFirst (xhrFirst env) else [])
                       @ fetch_plan env u (useApiAuth \<and> truthy apiAuthHeader))" for log
    using api_step_log [of env u fname useApiAuth apiAuthHeader log]
    by (simp add: network_step_def is_local_url_def)
  show ?thesis
  proof (cases "has_handle blobUrl")
    case False
    then show ?thesis
      using net [of "[]"] by (simp add: downloadFile_def plan_def has_handle_iff [symmetric])
  next
    case True
    show ?thesis
    proof (cases "local_handle (blobFetch env) fname")
      case None
      then show ?thesis
        using True net [of "[LocalHandle]"]
        by (simp add: downloadFile_def plan_def has_handle_iff [symmetric])
    next
      case (Some res)
      then show ?thesis
        using True
        by (simp add: downloadFile_def plan_def has_handle_iff [symmetric] until_yield_hit)
    qed
  qed
qed

lemma set_until_yield: "set (until_yield Y xs) \<subseteq> set xs"
  by (induction xs) (auto simp: until_yield.simps split: option.splits)

lemma plan_cases:
  "x \<in> set (plan env u blobUrl useApiAuth apiAuthHeader) \<Longrightarrow>
   x = LocalHandle \<and> has_handle blobUrl
   \<or> \<not> is_local_url u
     \<and> (x = OneShot \<and> useApiAuth \<and> truthy apiAuthHeader
        \<or> x \<in> set (low_level_plan LowLevelFirst (xhrFirst env)) \<and> is_attachment_url u
        \<or> x \<in> set (fetch_plan env u (useApiAuth \<and> truthy apiAuthHeader)))"
  by (auto simp: plan_def split: if_splits)

lemma low_level_plan_cases:
  "x \<in> set (low_level_plan S xo) \<Longrightarrow> x = S True \<or> x = S False \<and> fst xo = XhrError"
  by (auto simp: low_level_plan_def split: if_splits)

lemma again_plan_cases:
  "x \<in> set (again_plan env) \<Longrightarrow>
   x = LowLevelAgain True \<or> x = LowLevelAgain False \<and> fst (xhrAgain env) = XhrError \<or> x = Streaming"
  by (auto simp: again_plan_def dest: low_level_plan_cases)

lemma fin_plan_cases:
  "x \<in> set (fin_plan env r) \<Longrightarrow>
   x = Streaming \<and> (\<not> ok r \<or> body_blob r = None)
   \<or> x \<in> set (again_plan env) \<and> \<not> ok r \<and> (status r = 403 \<or> rtype r = ''opaque'')"
  by (auto simp: fin_plan_def again_plan_def split: if_splits)

lemma after_plan_cases:
  "x \<in> set (after_plan env api response) \<Longrightarrow>
   x = Streaming \<and> (response = None \<or> (\<exists>r. response = Some r \<and> rtype r = ''opaque''))
   \<or> (\<exists>r. response = Some r \<and> rtype r \<noteq> ''opaque'' \<and> \<not> ok r \<and> status r = 403 \<and> api
          \<and> (x = SameOriginRetry
              \<or> (\<exists>e. fetchRetry env = Inl e) \<and> x \<in> set (again_plan env)
              \<or> (\<exists>r3. fetchRetry env = Inr r3 \<and> x \<in> set (fin_plan env r3))))
   \<or> (\<exists>r. response = Some r \<and> rtype r \<noteq> ''opaque'' \<and> \<not> (\<not> ok r \<and> status r = 403 \<and> api)
          \<and> x \<in> set (fin_plan env r))"
  by (cases response) (auto simp: after_plan_def split: if_splits sum.splits)

lemma fetch_plan_cases:
  "x \<in> set (fetch_plan env u api) \<Longrightarrow>
   x = SameOrigin (api \<and> includes_str u ''/rest/api/'')
   \<or> (\<exists>e. fetchSameOrigin env = Inl e) \<and> x \<in> set (again_plan env)
   \<or> (\<exists>r1. fetchSameOrigin env = Inr r1 \<and> ok r1 \<and> x \<in> set (after_plan env api (Some r1)))
   \<or> (\<exists>r1. fetchSameOrigin env = Inr r1 \<and> \<not> ok r1
          \<and> (x = Permissive
              \<or> x \<in> set (after_plan env api
                           (case fetchInclude env of Inl e \<Rightarrow> None | Inr r2 \<Rightarrow> Some r2))))"
  by (auto simp: fetch_plan_def split: if_splits sum.splits)

lemma stage_le_9: "stage st \<le> 9"
  by (cases st rule: stage.cases) simp_all

lemma sorted_last_max:
  assumes s: "sorted_wrt (<) (map stage log)" and x: "x \<in> set log"
    and m: "\<forall>y\<in>set log. stage y \<le> stage x"
  shows "last log = x"
proof (rule ccontr)
  assume n: "last log \<noteq> x"
  have ne: "log \<noteq> []" using x by auto
  then have l: "log = butlast log @ [last log]" by simp
  then have "x \<in> set (butlast log)"
    using x n by (metis Un_iff empty_iff empty_set set_ConsD set_append)
  moreover have "sorted_wrt (<) (map stage (butlast log @ [last log]))"
    using s l by simp
  ultimately have "stage x < stage (last log)"
    by (simp add: sorted_wrt_append)
  moreover have "stage (last log) \<le> stage x"
    using m ne by simp
  ultimately show False by simp
qed

lemma fetch_plan_members:
  assumes "x \<in> set (fetch_plan env u api)"
  shows "x = SameOrigin (api \<and> includes_str u ''/rest/api/'')
   \<or> x = Permissive \<and> (\<exists>r1. fetchSameOrigin env = Inr r1 \<and> \<not> ok r1)
   \<or> x = SameOriginRetry \<and> api
       \<and> (\<exists>r1. fetchSameOrigin env = Inr r1 \<and> \<not> ok r1)
       \<and> (\<exists>r2. fetchInclude env = Inr r2 \<and> \<not> ok r2 \<and> status r2 = 403 \<and> rtype r2 \<noteq> ''opaque'')
   \<or> (\<exists>c. x = LowLevelAgain c \<and> (\<not> c \<longrightarrow> fst (xhrAgain env) = XhrError))
       \<and> ((\<exists>e. fetchSameOrigin env = Inl e)
          \<or> (\<exists>r2. fetchInclude env = Inr r2 \<and> \<not> ok r2 \<and> status r2 = 403
                \<and> (api \<longrightarrow> (\<exists>e. fetchRetry env = Inl e)
                          \<or> (\<exists>r3. fetchRetry env = Inr r3 \<and> \<not> ok r3
                                \<and> (status r3 = 403 \<or> rtype r3 = ''opaque'')))))
   \<or> x = Streaming"
proof -
  have again: "y \<in> set (again_plan env) \<Longrightarrow>
        (\<exists>c. y = LowLevelAgain c \<and> (\<not> c \<longrightarrow> fst (xhrAgain env) = XhrError)) \<or> y = Streaming" for y
    by (auto dest: again_plan_cases)
  have fin: "y \<in> set (fin_plan env r) \<Longrightarrow>
        (\<exists>c. y = LowLevelAgain c \<and> (\<not> c \<longrightarrow> fst (xhrAgain env) = XhrError))
          \<and> \<not> ok r \<and> (status r = 403 \<or> rtype r = ''opaque'')
        \<or> y = Streaming" for y r
    by (auto dest!: fin_plan_cases again)
  have after: "y \<in> set (after_plan env api (Some r)) \<Longrightarrow>
        y = SameOriginRetry \<and> api \<and> \<not> ok r \<and> status r = 403 \<and> rtype r \<noteq> ''opaque''
        \<or> (\<exists>c. y = LowLevelAgain c \<and> (\<not> c \<longrightarrow> fst (xhrAgain env) = XhrError))
            \<and> \<not> ok r \<and> status r = 403
            \<and> (api \<longrightarrow> (\<exists>e. fetchRetry env = Inl e)
                       \<or> (\<exists>r3. fetchRetry env = Inr r3 \<and> \<not> ok r3
                             \<and> (status r3 = 403 \<or> rtype r3 = ''opaque'')))
        \<or> y = Streaming" for y r
    by (auto dest!: after_plan_cases fin again)
  have none: "y \<in> set (after_plan env api None) \<Longrightarrow> y = Streaming" for y
    by (simp add: after_plan_def)
  from fetch_plan_cases [OF assms] show ?thesis
  proof (elim disjE conjE exE)
    fix r1 assume "fetchSameOrigin env = Inr r1" "ok r1" "x \<in> set (after_plan env api (Some r1))"
    then show ?thesis using after [of x r1] by auto
  next
    fix r1 assume r1: "fetchSameOrigin env = Inr r1" "\<not> ok r1"
      and "x \<in> set (after_plan env api (case fetchInclude env of Inl e \<Rightarrow> None | Inr r2 \<Rightarrow> Some r2))"
    then show ?thesis
      using none [of x] after [of x] r1
      by (cases "fetchInclude env") auto
  next
    fix e assume "fetchSameOrigin env = Inl e" "x \<in> set (again_plan env)"
    then show ?thesis using again [of x] by auto
  qed auto
qed

lemma plan_members:
  assumes "x \<in> set (plan env u blobUrl useApiAuth apiAuthHeader)"
  shows "x = LocalHandle \<and> has_handle blobUrl
   \<or> \<not> is_local_url u
     \<and> (x = OneShot \<and> useApiAuth \<and> truthy apiAuthHeader
        \<or> (\<exists>c. x = LowLevelFirst c \<and> (\<not> c \<longrightarrow> fst (xhrFirst env) = XhrError)) \<and> is_attachment_url u
        \<or> x \<in> set (fetch_plan env u (useApiAuth \<and> truthy apiAuthHeader)))"
  using plan_cases [OF assms] by (auto dest: low_level_plan_cases)

lemma stage_LowLevelAgain: "7 \<le> stage (LowLevelAgain c)"
  by (cases c) simp_all

lemma stage_LowLevelFirst: "stage (LowLevelFirst c) \<le> 3"
  by (cases c) simp_all

lemma until_yield_Cons:
  "until_yield Y (x # xs) = x # (case Y x of None \<Rightarrow> until_yield Y xs | Some y \<Rightarrow> [])"
  by (cases "Y x") (simp_all add: until_yield.simps)

lemma log_members:
  assumes "x \<in> set (fst (downloadFile env u fname blobUrl useApiAuth apiAuthHeader))"
  shows "x \<in> set (plan env u blobUrl useApiAuth apiAuthHeader)"
proof -
  have "set (until_yield (yield env u fname) (plan env u blobUrl useApiAuth apiAuthHeader))
        \<subseteq> set (plan env u blobUrl useApiAuth apiAuthHeader)"
    by (rule set_until_yield)
  then show ?thesis
    using assms by (auto simp: downloadFile_log)
qed

lemma downloadFile_ends:
  assumes x: "x \<in> set (fst (downloadFile env u fname blobUrl useApiAuth apiAuthHeader))"
    and m: "\<forall>y\<in>set (plan env u blobUrl useApiAuth apiAuthHeader). stage y \<le> stage x"
  shows "last (fst (downloadFile env u fname blobUrl useApiAuth apiAuthHeader)) = x
         \<and> snd (downloadFile env u fname blobUrl useApiAuth apiAuthHeader) = yield env u fname x"
proof -
  let ?out = "downloadFile env u fname blobUrl useApiAuth apiAuthHeader"
  have fs: "first_success env u fname ?out" by (rule downloadFile_first_success)
  have sub: "set (fst ?out) \<subseteq> set (plan env u blobUrl useApiAuth apiAuthHeader)"
    unfolding downloadFile_log by (rule set_until_yield)
  have "last (fst ?out) = x"
    by (rule sorted_last_max) (use fs x m sub in \<open>auto simp: first_success_def\<close>)
  moreover have "fst ?out \<noteq> []" using x by auto
  ultimately show ?thesis
    using fs by (simp add: first_success_def)
qed

lemma prefix_stage:
  assumes "x \<in> set (plan env u blobUrl useApiAuth apiAuthHeader)"
  shows "stage x \<le> 3 \<or> x \<in> set (fetch_plan env u (useApiAuth \<and> truthy apiAuthHeader))"
proof -
  have "stage (LowLevelFirst c) \<le> 3" for c by (rule stage_LowLevelFirst)
  then show ?thesis
    using plan_members [OF assms] by (elim disjE conjE exE) simp_all
qed

lemma plan_bound:
  assumes f: "\<And>y. y \<in> set (fetch_plan env u (useApiAuth \<and> truthy apiAuthHeader)) \<Longrightarrow> stage y \<le> k"
    and k: "3 \<le> k"
  shows "\<forall>y\<in>set (plan env u blobUrl useApiAuth apiAuthHeader). stage y \<le> k"
proof
  fix y assume "y \<in> set (plan env u blobUrl useApiAuth apiAuthHeader)"
  from prefix_stage [OF this] show "stage y \<le> k"
  proof
    assume "stage y \<le> 3"
    then show ?thesis using k by simp
  next
    assume "y \<in> set (fetch_plan env u (useApiAuth \<and> truthy apiAuthHeader))"
    then show ?thesis by (rule f)
  qed
qed

lemma fetch_plan_of_plan:
  assumes "x \<in> set (plan env u blobUrl useApiAuth apiAuthHeader)" "3 < stage x"
  shows "x \<in> set (fetch_plan env u (useApiAuth \<and> truthy apiAuthHeader))"
  using prefix_stage [OF assms(1)] assms(2) by auto

lemma empty_same_origin_ends:
  assumes r: "fetchSameOrigin env = Inr r" "ok r" "rtype r \<noteq> ''opaque''"
      "body_blob r = Some b" "data b = []"
    and x: "SameOrigin h \<in> set (fst (downloadFile env u fname blobUrl useApiAuth apiAuthHeader))"
  shows "last (fst (downloadFile env u fname blobUrl useApiAuth apiAuthHeader)) = SameOrigin h
         \<and> snd (downloadFile env u fname blobUrl useApiAuth apiAuthHeader) = None"
proof -
  have fp: "fetch_plan env u api = [SameOrigin (api \<and> includes_str u ''/rest/api/'')]" for api
    using r by (simp add: fetch_plan_def after_plan_def fin_plan_def)
  have "\<forall>y\<in>set (plan env u blobUrl useApiAuth apiAuthHeader). stage y \<le> stage (SameOrigin h)"
    by (rule plan_bound) (simp_all add: fp)
  from downloadFile_ends [OF x this] show ?thesis
    using r by (simp add: blob_of_def)
qed

lemma empty_permissive_ends:
  assumes r: "fetchInclude env = Inr r" "ok r" "rtype r \<noteq> ''opaque''"
      "body_blob r = Some b" "data b = []"
    and x: "Permissive \<in> set (fst (downloadFile env u fname blobUrl useApiAuth apiAuthHeader))"
  shows "last (fst (downloadFile env u fname blobUrl useApiAuth apiAuthHeader)) = Permissive
         \<and> snd (downloadFile env u fname blobUrl useApiAuth apiAuthHeader) = None"
proof -
  have "Permissive \<in> set (plan env u blobUrl useApiAuth apiAuthHeader)"
    using x by (rule log_members)
  then have "Permissive \<in> set (fetch_plan env u (useApiAuth \<and> truthy apiAuthHeader))"
    by (rule fetch_plan_of_plan) simp
  then obtain r1 where r1: "fetchSameOrigin env = Inr r1" "\<not> ok r1"
    using fetch_plan_members [of Permissive env u "useApiAuth \<and> truthy apiAuthHeader"] by auto
  have fp: "fetch_plan env u api = [SameOrigin (api \<and> includes_str u ''/rest/api/''), Permissive]" for api
    using r r1 by (simp add: fetch_plan_def after_plan_def fin_plan_def)
  have "\<forall>y\<in>set (plan env u blobUrl useApiAuth apiAuthHeader). stage y \<le> stage Permissive"
    by (rule plan_bound) (auto simp: fp)
  from downloadFile_ends [OF x this] show ?thesis
    using r by (simp add: blob_of_def)
qed

lemma empty_retry_ends:
  assumes r: "fetchRetry env = Inr r" "ok r" "body_blob r = Some b" "data b = []"
    and x: "SameOriginRetry \<in> set (fst (downloadFile env u fname blobUrl useApiAuth apiAuthHeader))"
  shows "last (fst (downloadFile env u fname blobUrl useApiAuth apiAuthHeader)) = SameOriginRetry
         \<and> snd (downloadFile env u fname blobUrl useApiAuth apiAuthHeader) = None"
proof -
  let ?api = "useApiAuth \<and> truthy apiAuthHeader"
  have "SameOriginRetry \<in> set (plan env u blobUrl useApiAuth apiAuthHeader)"
    using x by (rule log_members)
  then have "SameOriginRetry \<in> set (fetch_plan env u ?api)"
    by (rule fetch_plan_of_plan) simp
  then obtain r1 r2 where r1: "fetchSameOrigin env = Inr r1" "\<not> ok r1"
    and r2: "fetchInclude env = Inr r2" "\<not> ok r2" "status r2 = 403" "rtype r2 \<noteq> ''opaque''"
    and api: "?api"
    using fetch_plan_members [of SameOriginRetry env u ?api] by auto
  have fp: "fetch_plan env u ?api
            = [SameOrigin (?api \<and> includes_str u ''/rest/api/''), Permissive, SameOriginRetry]"
    using r r1 r2 api by (simp add: fetch_plan_def after_plan_def fin_plan_def)
  have "\<forall>y\<in>set (plan env u blobUrl useApiAuth apiAuthHeader). stage y \<le> stage SameOriginRetry"
    by (rule plan_bound) (auto simp: fp)
  from downloadFile_ends [OF x this] show ?thesis
    using r by (simp add: blob_of_def)
qed

lemma streaming_last:
  assumes "Streaming \<in> set (fst (downloadFile env u fname blobUrl useApiAuth apiAuthHeader))"
  shows "last (fst (downloadFile env u fname blobUrl useApiAuth apiAuthHeader)) = Streaming"
proof -
  have "\<forall>y\<in>set (plan env u blobUrl useApiAuth apiAuthHeader). stage y \<le> stage Streaming"
    using stage_le_9 by simp
  from downloadFile_ends [OF assms this] show ?thesis by simp
qed

lemma local_handle_attempted:
  "LocalHandle \<in> set (fst (downloadFile env u fname blobUrl useApiAuth apiAuthHeader))
   \<longleftrightarrow> has_handle blobUrl"
proof
  assume "LocalHandle \<in> set (fst (downloadFile env u fname blobUrl useApiAuth apiAuthHeader))"
  from plan_members [OF log_members [OF this]]
    fetch_plan_members [of LocalHandle env u "useApiAuth \<and> truthy apiAuthHeader"]
  show "has_handle blobUrl" by auto
next
  assume "has_handle blobUrl"
  then show "LocalHandle \<in> set (fst (downloadFile env u fname blobUrl useApiAuth apiAuthHeader))"
    unfolding downloadFile_log by (simp add: plan_def until_yield_Cons)
qed

lemma next_after_append: "x \<notin> set pre \<Longrightarrow> next_after x (pre @ x # z # post) = Some z"
proof (induction pre)
  case Nil
  then show ?case by simp
next
  case (Cons p pre)
  then show ?case by (cases "pre @ x # z # post") auto
qed

lemma next_after_until_yield:
  assumes x: "x \<in> set (until_yield Y (pre @ x # z # post))" and n: "x \<notin> set pre"
    and f: "Y x = None"
  shows "next_after x (until_yield Y (pre @ x # z # post)) = Some z"
proof -
  have "list_all (\<lambda>x. Y x = None) pre"
  proof (rule ccontr)
    assume "\<not> list_all (\<lambda>x. Y x = None) pre"
    then have "until_yield Y (pre @ x # z # post) = until_yield Y pre"
      by (simp add: until_yield_append)
    then have "x \<in> set pre"
      using x set_until_yield [of Y pre] by auto
    then show False using n by simp
  qed
  then have "until_yield Y (pre @ x # z # post)
             = pre @ x # z # (case Y z of None \<Rightarrow> until_yield Y post | Some y \<Rightarrow> [])"
    using f by (simp add: until_yield_append until_yield_Cons)
  then show ?thesis
    using n by (simp add: next_after_append)
qed

lemma downloadFile_next:
  assumes x: "x \<in> set (fst (downloadFile env u fname blobUrl useApiAuth apiAuthHeader))"
    and p: "plan env u blobUrl useApiAuth apiAuthHeader = pre @ x # z # post"
    and n: "x \<notin> set pre" and f: "yield env u fname x = None"
  shows "next_after x (fst (downloadFile env u fname blobUrl useApiAuth apiAuthHeader)) = Some z"
  using next_after_until_yield [of x "yield env u fname" pre z post] x n f
  by (simp add: downloadFile_log p)

lemma attachment_plan_Cons:
  "attachment_plan env u api
   = (if is_attachment_url u then LowLevelFirst True
      else SameOrigin (api \<and> includes_str u ''/rest/api/'')) # tl (attachment_plan env u api)"
  by (simp add: attachment_plan_def low_level_plan_def fetch_plan_def)

lemma plan_attachment_plan:
  "api = (useApiAuth \<and> truthy apiAuthHeader) \<Longrightarrow>
   plan env u blobUrl useApiAuth apiAuthHeader
   = (if has_handle blobUrl then [LocalHandle] else [])
     @ (if is_local_url u then []
        else (if api then [OneShot] else []) @ attachment_plan env u api)"
  by (simp add: plan_def attachment_plan_def)

lemma next_after_local_handle:
  assumes h: "has_handle blobUrl" and l: "\<not> is_local_url u"
    and e: "blobFetch env = Inr r" "ok r" "body_blob r = Some b" "data b = []"
  shows "next_after LocalHandle (fst (downloadFile env u fname blobUrl useApiAuth apiAuthHeader))
         = Some (if useApiAuth \<and> truthy apiAuthHeader then OneShot
                 else if is_attachment_url u then LowLevelFirst True
                 else SameOrigin False)"
proof -
  define api where "api = (useApiAuth \<and> truthy apiAuthHeader)"
  obtain rest where ap: "attachment_plan env u api
      = (if is_attachment_url u then LowLevelFirst True
         else SameOrigin (api \<and> includes_str u ''/rest/api/'')) # rest"
    using attachment_plan_Cons [of env u api] by blast
  have p: "plan env u blobUrl useApiAuth apiAuthHeader
      = [] @ LocalHandle # (if api then OneShot
                 else if is_attachment_url u then LowLevelFirst True
                 else SameOrigin False)
           # (if api then attachment_plan env u api else rest)"
  proof (cases api)
    case True
    then show ?thesis using h l by (simp add: plan_attachment_plan [OF api_def])
  next
    case False
    then show ?thesis using h l ap by (simp add: plan_attachment_plan [OF api_def])
  qed
  have x: "LocalHandle \<in> set (fst (downloadFile env u fname blobUrl useApiAuth apiAuthHeader))"
    using h by (simp add: local_handle_attempted)
  have f: "yield env u fname LocalHandle = None"
    using e by (simp add: local_handle_def)
  have "next_after LocalHandle (fst (downloadFile env u fname blobUrl useApiAuth apiAuthHeader))
         = Some (if api then OneShot
                 else if is_attachment_url u then LowLevelFirst True
                 else SameOrigin False)"
    by (rule downloadFile_next [OF x p _ f]) simp
  then show ?thesis by (simp add: api_def)
qed

lemma next_after_one_shot:
  assumes x: "OneShot \<in> set (fst (downloadFile env u fname blobUrl useApiAuth apiAuthHeader))"
    and e: "oneShot env = Some rp" "payload rp = Some []"
  shows "next_after OneShot (fst (downloadFile env u fname blobUrl useApiAuth apiAuthHeader))
         = Some (if is_attachment_url u then LowLevelFirst True
                 else SameOrigin (includes_str u ''/rest/api/''))"
proof -
  define api where "api = (useApiAuth \<and> truthy apiAuthHeader)"
  have "OneShot \<in> set (plan env u blobUrl useApiAuth apiAuthHeader)"
    using x by (rule log_members)
  from plan_members [OF this] fetch_plan_members [of OneShot env u "useApiAuth \<and> truthy apiAuthHeader"]
  have c: "\<not> is_local_url u" "api"
    by (auto simp: api_def)
  obtain rest where ap: "attachment_plan env u api
      = (if is_attachment_url u then LowLevelFirst True
         else SameOrigin (api \<and> includes_str u ''/rest/api/'')) # rest"
    using attachment_plan_Cons [of env u api] by blast
  have p: "plan env u blobUrl useApiAuth apiAuthHeader
      = (if has_handle blobUrl then [LocalHandle] else [])
        @ OneShot # (if is_attachment_url u then LowLevelFirst True
                     else SameOrigin (includes_str u ''/rest/api/'')) # rest"
    using c ap by (simp add: plan_attachment_plan [OF api_def])
  have f: "yield env u fname OneShot = None"
    using e by (simp add: downloadFileViaBackgroundBlob_def)
  show ?thesis
    by (rule downloadFile_next [OF x p _ f]) simp
qed

lemma plan_split:
  assumes "\<not> is_local_url u"
  shows "\<exists>p3. plan env u blobUrl useApiAuth apiAuthHeader
               = p3 @ fetch_plan env u (useApiAuth \<and> truthy apiAuthHeader)
             \<and> (\<forall>y\<in>set p3. stage y \<le> 3)"
proof -
  let ?p3 = "(if has_handle blobUrl then [LocalHandle] else [])
             @ (if useApiAuth \<and> truthy apiAuthHeader then [OneShot] else [])
             @ (if is_attachment_url u then low_level_plan LowLevelFirst (xhrFirst env) else [])"
  have "plan env u blobUrl useApiAuth apiAuthHeader
        = ?p3 @ fetch_plan env u (useApiAuth \<and> truthy apiAuthHeader)"
    using assms by (simp add: plan_def)
  moreover have "\<forall>y\<in>set ?p3. stage y \<le> 3"
    by (auto simp: low_level_plan_def split: if_splits)
  ultimately show ?thesis by blast
qed

lemma fin_plan_again:
  "LowLevelAgain c \<in> set (fin_plan env r) \<Longrightarrow> fin_plan env r = again_plan env"
  by (auto simp: fin_plan_def split: if_splits)

lemma after_plan_again:
  assumes "LowLevelAgain c \<in> set (after_plan env api resp)"
  shows "\<exists>pre. after_plan env api resp = pre @ again_plan env \<and> (\<forall>y\<in>set pre. stage y \<le> 6)"
proof (cases resp)
  case None
  then show ?thesis using assms by (simp add: after_plan_def)
next
  case (Some r)
  show ?thesis
  proof (cases "rtype r = ''opaque''")
    case True
    then show ?thesis using assms Some by (simp add: after_plan_def)
  next
    case nop: False
    show ?thesis
    proof (cases "\<not> ok r \<and> status r = 403 \<and> api")
      case False
      then have "after_plan env api resp = fin_plan env r"
        using Some nop by (auto simp: after_plan_def)
      then have "after_plan env api resp = [] @ again_plan env"
        using assms fin_plan_again [of c env r] by simp
      then show ?thesis by (intro exI [of _ "[]"]) simp
    next
      case True
      then have a: "after_plan env api resp
          = SameOriginRetry # (case fetchRetry env of Inl e \<Rightarrow> again_plan env | Inr r3 \<Rightarrow> fin_plan env r3)"
        using Some nop by (simp add: after_plan_def)
      have "(case fetchRetry env of Inl e \<Rightarrow> again_plan env | Inr r3 \<Rightarrow> fin_plan env r3) = again_plan env"
      proof (cases "fetchRetry env")
        case (Inl e)
        then show ?thesis by simp
      next
        case (Inr r3)
        then have "LowLevelAgain c \<in> set (fin_plan env r3)"
          using assms a by simp
        then have "fin_plan env r3 = again_plan env" by (rule fin_plan_again)
        then show ?thesis using Inr by simp
      qed
      then have "after_plan env api resp = [SameOriginRetry] @ again_plan env"
        using a by simp
      then show ?thesis by (intro exI [of _ "[SameOriginRetry]"]) simp
    qed
  qed
qed

lemma fetch_plan_again:
  assumes "LowLevelAgain c \<in> set (fetch_plan env u api)"
  shows "\<exists>pre. fetch_plan env u api = pre @ again_plan env \<and> (\<forall>y\<in>set pre. stage y \<le> 6)"
proof (cases "fetchSameOrigin env")
  case (Inl e)
  then have "fetch_plan env u api = [SameOrigin (api \<and> includes_str u ''/rest/api/'')] @ again_plan env"
    by (simp add: fetch_plan_def)
  then show ?thesis
    by (intro exI [of _ "[SameOrigin (api \<and> includes_str u ''/rest/api/'')]"]) simp
next
  case (Inr r1)
  show ?thesis
  proof (cases "ok r1")
    case True
    then have f: "fetch_plan env u api
        = SameOrigin (api \<and> includes_str u ''/rest/api/'') # after_plan env api (Some r1)"
      using Inr by (simp add: fetch_plan_def)
    then have "LowLevelAgain c \<in> set (after_plan env api (Some r1))"
      using assms by simp
    from after_plan_again [OF this] obtain pre
      where "after_plan env api (Some r1) = pre @ again_plan env" "\<forall>y\<in>set pre. stage y \<le> 6"
      by blast
    then show ?thesis
      using f by (intro exI [of _ "SameOrigin (api \<and> includes_str u ''/rest/api/'') # pre"]) simp
  next
    case False
    let ?resp = "case fetchInclude env of Inl e \<Rightarrow> None | Inr r2 \<Rightarrow> Some r2"
    have f: "fetch_plan env u api
        = SameOrigin (api \<and> includes_str u ''/rest/api/'') # Permissive # after_plan env api ?resp"
      using Inr False by (simp add: fetch_plan_def)
    then have "LowLevelAgain c \<in> set (after_plan env api ?resp)"
      using assms by simp
    from after_plan_again [OF this] obtain pre
      where "after_plan env api ?resp = pre @ again_plan env" "\<forall>y\<in>set pre. stage y \<le> 6"
      by blast
    then show ?thesis
      using f
      by (intro exI [of _ "SameOrigin (api \<and> includes_str u ''/rest/api/'') # Permissive # pre"]) simp
  qed
qed

lemma xhr_empty_yield:
  "x = XhrLoad st (Some b) \<Longrightarrow> data b = [] \<Longrightarrow> xhr_yield x fname = None"
  by (simp add: xhr_yield_def xhr_onload_def)

lemma next_after_low_level_first:
  assumes x: "LowLevelFirst c \<in> set (fst (downloadFile env u fname blobUrl useApiAuth apiAuthHeader))"
    and e: "(if c then fst (xhrFirst env) else snd (xhrFirst env)) = XhrLoad st (Some b)" "data b = []"
  shows "next_after (LowLevelFirst c) (fst (downloadFile env u fname blobUrl useApiAuth apiAuthHeader))
         = Some (SameOrigin (useApiAuth \<and> truthy apiAuthHeader \<and> includes_str u ''/rest/api/''))"
proof -
  define api where "api = (useApiAuth \<and> truthy apiAuthHeader)"
  let ?pre = "(if has_handle blobUrl then [LocalHandle] else []) @ (if api then [OneShot] else [])"
  have "LowLevelFirst c \<in> set (plan env u blobUrl useApiAuth apiAuthHeader)"
    using x by (rule log_members)
  from plan_members [OF this] fetch_plan_members [of "LowLevelFirst c" env u "useApiAuth \<and> truthy apiAuthHeader"]
  have c: "\<not> is_local_url u" "is_attachment_url u" "\<not> c \<longrightarrow> fst (xhrFirst env) = XhrError"
    by auto
  obtain rest where fp: "fetch_plan env u api = SameOrigin (api \<and> includes_str u ''/rest/api/'') # rest"
    by (simp add: fetch_plan_def)
  have f: "yield env u fname (LowLevelFirst c) = None"
    using e by (simp add: xhr_empty_yield)
  have "next_after (LowLevelFirst c) (fst (downloadFile env u fname blobUrl useApiAuth apiAuthHeader))
         = Some (SameOrigin (api \<and> includes_str u ''/rest/api/''))"
  proof (cases c)
    case True
    then have "fst (xhrFirst env) \<noteq> XhrError" using e by simp
    then have p: "plan env u blobUrl useApiAuth apiAuthHeader
         = ?pre @ LowLevelFirst c # SameOrigin (api \<and> includes_str u ''/rest/api/'') # rest"
      using c fp True by (simp add: plan_def low_level_plan_def api_def)
    show ?thesis
      by (rule downloadFile_next [OF x p _ f]) simp
  next
    case False
    then have "fst (xhrFirst env) = XhrError" using c by simp
    then have p: "plan env u blobUrl useApiAuth apiAuthHeader
         = (?pre @ [LowLevelFirst True]) @ LowLevelFirst c
           # SameOrigin (api \<and> includes_str u ''/rest/api/'') # rest"
      using c fp False by (simp add: plan_def low_level_plan_def api_def)
    show ?thesis
      by (rule downloadFile_next [OF x p _ f]) (use False in simp)
  qed
  then show ?thesis by (simp add: api_def)
qed

lemma next_after_low_level_again:
  assumes x: "LowLevelAgain c \<in> set (fst (downloadFile env u fname blobUrl useApiAuth apiAuthHeader))"
    and e: "(if c then fst (xhrAgain env) else snd (xhrAgain env)) = XhrLoad st (Some b)" "data b = []"
  shows "next_after (LowLevelAgain c) (fst (downloadFile env u fname blobUrl useApiAuth apiAuthHeader))
         = Some Streaming"
proof -
  let ?api = "useApiAuth \<and> truthy apiAuthHeader"
  have m: "LowLevelAgain c \<in> set (plan env u blobUrl useApiAuth apiAuthHeader)"
    using x by (rule log_members)
  have s7: "7 \<le> stage (LowLevelAgain c)" by (rule stage_LowLevelAgain)
  from plan_members [OF m]
  have l: "\<not> is_local_url u" and fm: "LowLevelAgain c \<in> set (fetch_plan env u ?api)"
    by auto
  from fetch_plan_members [OF fm]
  have ce: "\<not> c \<longrightarrow> fst (xhrAgain env) = XhrError"
    by auto
  from plan_split [OF l, of env blobUrl useApiAuth apiAuthHeader] obtain p3
    where p3: "plan env u blobUrl useApiAuth apiAuthHeader = p3 @ fetch_plan env u ?api"
      "\<forall>y\<in>set p3. stage y \<le> 3"
    by blast
  from fetch_plan_again [OF fm] obtain pre
    where pre: "fetch_plan env u ?api = pre @ again_plan env" "\<forall>y\<in>set pre. stage y \<le> 6"
    by blast
  have n: "LowLevelAgain c \<notin> set (p3 @ pre)"
  proof
    assume "LowLevelAgain c \<in> set (p3 @ pre)"
    then have "stage (LowLevelAgain c) \<le> 6"
      using p3(2) pre(2) by fastforce
    then show False using s7 by simp
  qed
  have f: "yield env u fname (LowLevelAgain c) = None"
    using e by (simp add: xhr_empty_yield)
  show ?thesis
  proof (cases c)
    case True
    then have "fst (xhrAgain env) \<noteq> XhrError" using e by simp
    then have p: "plan env u blobUrl useApiAuth apiAuthHeader
         = (p3 @ pre) @ LowLevelAgain c # Streaming # []"
      using p3(1) pre(1) True by (simp add: again_plan_def low_level_plan_def)
    show ?thesis
      by (rule downloadFile_next [OF x p n f])
  next
    case False
    then have "fst (xhrAgain env) = XhrError" using ce by simp
    then have p: "plan env u blobUrl useApiAuth apiAuthHeader
         = (p3 @ pre @ [LowLevelAgain True]) @ LowLevelAgain c # Streaming # []"
      using p3(1) pre(1) False by (simp add: again_plan_def low_level_plan_def)
    have n': "LowLevelAgain c \<notin> set (p3 @ pre @ [LowLevelAgain True])"
      using n False by simp
    show ?thesis
      by (rule downloadFile_next [OF x p n' f])
  qed
qed

lemma empty_stream_ends:
  assumes x: "Streaming \<in> set (fst (downloadFile env u fname blobUrl useApiAuth apiAuthHeader))"
    and e: "streamEvents env = replicate n (Message (chunk_message (streamId env) []))
                                @ Message (complete_message (streamId env) ct) # evs"
  shows "last (fst (downloadFile env u fname blobUrl useApiAuth apiAuthHeader)) = Streaming
         \<and> snd (downloadFile env u fname blobUrl useApiAuth apiAuthHeader) = None"
proof -
  have "\<forall>y\<in>set (plan env u blobUrl useApiAuth apiAuthHeader). stage y \<le> stage Streaming"
    using stage_le_9 by simp
  from downloadFile_ends [OF x this] show ?thesis
    using empty_session_fails [of "streamId env" n ct evs u fname] e by simp
qed

lemma attempt_conditions:
  assumes "x \<in> set (fst (downloadFile env u fname blobUrl useApiAuth apiAuthHeader))"
  shows "x = LocalHandle \<and> has_handle blobUrl
   \<or> \<not> is_local_url u
     \<and> (x = OneShot \<and> useApiAuth \<and> truthy apiAuthHeader
        \<or> (\<exists>c. x = LowLevelFirst c \<and> (\<not> c \<longrightarrow> fst (xhrFirst env) = XhrError)) \<and> is_attachment_url u
        \<or> x = SameOrigin (useApiAuth \<and> truthy apiAuthHeader \<and> includes_str u ''/rest/api/'')
        \<or> x = Permissive \<and> (\<exists>r1. fetchSameOrigin env = Inr r1 \<and> \<not> ok r1)
        \<or> x = SameOriginRetry \<and> useApiAuth \<and> truthy apiAuthHeader
            \<and> (\<exists>r2. fetchInclude env = Inr r2 \<and> \<not> ok r2 \<and> status r2 = 403 \<and> rtype r2 \<noteq> ''opaque'')
        \<or> (\<exists>c. x = LowLevelAgain c \<and> (\<not> c \<longrightarrow> fst (xhrAgain env) = XhrError))
            \<and> ((\<exists>e. fetchSameOrigin env = Inl e)
               \<or> (\<exists>r2. fetchInclude env = Inr r2 \<and> \<not> ok r2 \<and> status r2 = 403
                     \<and> (useApiAuth \<and> truthy apiAuthHeader \<longrightarrow>
                          (\<exists>e. fetchRetry env = Inl e)
                          \<or> (\<exists>r3. fetchRetry env = Inr r3 \<and> \<not> ok r3
                                \<and> (status r3 = 403 \<or> rtype r3 = ''opaque'')))))
        \<or> x = Streaming)"
proof -
  from plan_members [OF log_members [OF assms]]
  show ?thesis
  proof (elim disjE conjE)
    assume l: "\<not> is_local_url u"
      and "x \<in> set (fetch_plan env u (useApiAuth \<and> truthy apiAuthHeader))"
    from fetch_plan_members [OF this(2)] l show ?thesis
      by (elim disjE conjE) simp_all
  qed simp_all
qed

lemma local_url_attempts:
  "is_local_url u \<Longrightarrow>
   fst (downloadFile env u fname blobUrl useApiAuth apiAuthHeader)
   = (if has_handle blobUrl then [LocalHandle] else [])"
  by (simp add: downloadFile_log plan_def)

text \<open>
  Claim C7 (empty-payload guard), as amended. \<^verbatim>\<open>downloadFile\<close> never returns a payload
  of length zero. A zero-length result of the local handle, of the one-shot service and of
  the low-level request object (before or after the fetches) is treated like a failure of
  the transport: the whole cascade runs exactly as it does when that request fails, and
  the attempt that follows is the next strategy of \<^verbatim>\<open>downloadFile\<close>. After the local
  handle (for a URL that is not itself a \<^verbatim>\<open>blob:\<close> or \<^verbatim>\<open>data:\<close> URL) it is the
  one-shot service under API authentication, else the low-level request object for an
  attachment URL, else the same-origin fetch; after the one-shot service it is the
  low-level request object for an attachment URL, else the same-origin fetch; after the
  low-level request object before the fetches it is the same-origin fetch, and after the
  low-level request object after the fetches it is the stream. A streaming session that
  completes without a byte resolves with \<^verbatim>\<open>null\<close>; the stream is the last strategy,
  so \<^verbatim>\<open>downloadFile\<close> returns \<^verbatim>\<open>null\<close>. An ok response of an in-context fetch (the
  same-origin fetch, the permissive fetch, the second same-origin fetch) whose blob is
  empty ends the cascade at once: that fetch is the last attempt and \<^verbatim>\<open>downloadFile\<close>
  returns \<^verbatim>\<open>null\<close>.
\<close>

theorem empty_payload_guard:
  "(case snd (downloadFile env u fname blobUrl useApiAuth apiAuthHeader) of
      None \<Rightarrow> True | Some res \<Rightarrow> data (blob res) \<noteq> [])
   \<and> downloadFile (env\<lparr>blobFetch := Inr (r\<lparr>ok := True, body_blob := Some \<lparr>data = [], btype = t\<rparr>\<rparr>)\<rparr>)
        u fname blobUrl useApiAuth apiAuthHeader
     = downloadFile (env\<lparr>blobFetch := Inl e\<rparr>) u fname blobUrl useApiAuth apiAuthHeader
   \<and> downloadFile (env\<lparr>oneShot := Some \<lparr>success = True, payload = Some [], reply_type = t\<rparr>\<rparr>)
        u fname blobUrl useApiAuth apiAuthHeader
     = downloadFile (env\<lparr>oneShot := None\<rparr>) u fname blobUrl useApiAuth apiAuthHeader
   \<and> downloadFile (env\<lparr>xhrFirst := (XhrLoad 200 (Some \<lparr>data = [], btype = t\<rparr>), x)\<rparr>)
        u fname blobUrl useApiAuth apiAuthHeader
     = downloadFile (env\<lparr>xhrFirst := (XhrLoad 500 None, x)\<rparr>) u fname blobUrl useApiAuth apiAuthHeader
   \<and> downloadFile (env\<lparr>xhrAgain := (XhrLoad 200 (Some \<lparr>data = [], btype = t\<rparr>), x)\<rparr>)
        u fname blobUrl useApiAuth apiAuthHeader
     = downloadFile (env\<lparr>xhrAgain := (XhrLoad 500 None, x)\<rparr>) u fname blobUrl useApiAuth apiAuthHeader
   \<and> downloadFileViaBackground rid
        (replicate n (Message (chunk_message rid [])) @ Message (complete_message rid ct) # evs)
        u fname = None
   \<and> (ok r \<and> body_blob r = Some \<lparr>data = [], btype = t\<rparr> \<longrightarrow>
        finish env u fname log r = (log, None))
   \<and> (let out = downloadFile env u fname blobUrl useApiAuth apiAuthHeader; tried = fst out
      in (has_handle blobUrl \<and> \<not> is_local_url u
          \<and> blobFetch env = Inr p \<and> ok p \<and> body_blob p = Some b \<and> data b = [] \<longrightarrow>
            next_after LocalHandle tried
            = Some (if useApiAuth \<and> truthy apiAuthHeader then OneShot
                    else if is_attachment_url u then LowLevelFirst True
                    else SameOrigin False))
       \<and> (OneShot \<in> set tried \<and> oneShot env = Some rp \<and> payload rp = Some [] \<longrightarrow>
            next_after OneShot tried
            = Some (if is_attachment_url u then LowLevelFirst True
                    else SameOrigin (includes_str u ''/rest/api/'')))
       \<and> (LowLevelFirst c \<in> set tried
          \<and> (if c then fst (xhrFirst env) else snd (xhrFirst env)) = XhrLoad st (Some b)
          \<and> data b = [] \<longrightarrow>
            next_after (LowLevelFirst c) tried
            = Some (SameOrigin (useApiAuth \<and> truthy apiAuthHeader \<and> includes_str u ''/rest/api/'')))
       \<and> (LowLevelAgain c \<in> set tried
          \<and> (if c then fst (xhrAgain env) else snd (xhrAgain env)) = XhrLoad st (Some b)
          \<and> data b = [] \<longrightarrow>
            next_after (LowLevelAgain c) tried = Some Streaming)
       \<and> (Streaming \<in> set tried
          \<and> streamEvents env = replicate n (Message (chunk_message (streamId env) []))
                                 @ Message (complete_message (streamId env) ct) # evs \<longrightarrow>
            last tried = Streaming \<and> snd out = None)
       \<and> (SameOrigin h \<in> set tried
          \<and> fetchSameOrigin env = Inr p \<and> ok p \<and> rtype p \<noteq> ''opaque''
          \<and> body_blob p = Some b \<and> data b = [] \<longrightarrow>
            last tried = SameOrigin h \<and> snd out = None)
       \<and> (Permissive \<in> set tried
          \<and> fetchInclude env = Inr p \<and> ok p \<and> rtype p \<noteq> ''opaque''
          \<and> body_blob p = Some b \<and> data b = [] \<longrightarrow>
            last tried = Permissive \<and> snd out = None)
       \<and> (SameOriginRetry \<in> set tried
          \<and> fetchRetry env = Inr p \<and> ok p \<and> body_blob p = Some b \<and> data b = [] \<longrightarrow>
            last tried = SameOriginRetry \<and> snd out = None))"
proof -
  let ?out = "downloadFile env u fname blobUrl useApiAuth apiAuthHeader"
  have a: "(case snd ?out of None \<Rightarrow> True | Some res \<Rightarrow> data (blob res) \<noteq> [])"
    using downloadFile_nonempty [of env u fname blobUrl useApiAuth apiAuthHeader]
    by (simp add: nonempty_result_def)
  have b: "downloadFile (env\<lparr>blobFetch := Inr (r\<lparr>ok := True, body_blob := Some \<lparr>data = [], btype = t\<rparr>\<rparr>)\<rparr>)
        u fname blobUrl useApiAuth apiAuthHeader
     = downloadFile (env\<lparr>blobFetch := Inl e\<rparr>) u fname blobUrl useApiAuth apiAuthHeader"
    by (rule same_answers_downloadFile) (simp add: same_answers_def local_handle_def)
  have c: "downloadFile (env\<lparr>oneShot := Some \<lparr>success = True, payload = Some [], reply_type = t\<rparr>\<rparr>)
        u fname blobUrl useApiAuth apiAuthHeader
     = downloadFile (env\<lparr>oneShot := None\<rparr>) u fname blobUrl useApiAuth apiAuthHeader"
    by (rule same_answers_downloadFile)
       (simp add: same_answers_def downloadFileViaBackgroundBlob_def)
  have d: "downloadFile (env\<lparr>xhrFirst := (XhrLoad 200 (Some \<lparr>data = [], btype = t\<rparr>), x)\<rparr>)
        u fname blobUrl useApiAuth apiAuthHeader
     = downloadFile (env\<lparr>xhrFirst := (XhrLoad 500 None, x)\<rparr>) u fname blobUrl useApiAuth apiAuthHeader"
    by (rule same_answers_downloadFile)
       (simp add: same_answers_def downloadFileViaXHR_def xhr_onload_def)
  have e: "downloadFile (env\<lparr>xhrAgain := (XhrLoad 200 (Some \<lparr>data = [], btype = t\<rparr>), x)\<rparr>)
        u fname blobUrl useApiAuth apiAuthHeader
     = downloadFile (env\<lparr>xhrAgain := (XhrLoad 500 None, x)\<rparr>) u fname blobUrl useApiAuth apiAuthHeader"
    by (rule same_answers_downloadFile)
       (simp add: same_answers_def downloadFileViaXHR_def xhr_onload_def)
  have f: "ok r \<and> body_blob r = Some \<lparr>data = [], btype = t\<rparr> \<longrightarrow>
        finish env u fname log r = (log, None)"
    by (simp add: finish_def)
  have g: "downloadFileViaBackground rid
        (replicate n (Message (chunk_message rid [])) @ Message (complete_message rid ct) # evs)
        u fname = None"
    by (rule empty_session_fails)
  have n1: "has_handle blobUrl \<and> \<not> is_local_url u
          \<and> blobFetch env = Inr p \<and> ok p \<and> body_blob p = Some b \<and> data b = [] \<longrightarrow>
            next_after LocalHandle (fst ?out)
            = Some (if useApiAuth \<and> truthy apiAuthHeader then OneShot
                    else if is_attachment_url u then LowLevelFirst True
                    else SameOrigin False)"
    using next_after_local_handle [of blobUrl u env p b fname useApiAuth apiAuthHeader] by blast
  have n2: "OneShot \<in> set (fst ?out) \<and> oneShot env = Some rp \<and> payload rp = Some [] \<longrightarrow>
            next_after OneShot (fst ?out)
            = Some (if is_attachment_url u then LowLevelFirst True
                    else SameOrigin (includes_str u ''/rest/api/''))"
    using next_after_one_shot [of env u fname blobUrl useApiAuth apiAuthHeader rp] by blast
  have n3: "LowLevelFirst c \<in> set (fst ?out)
          \<and> (if c then fst (xhrFirst env) else snd (xhrFirst env)) = XhrLoad st (Some b)
          \<and> data b = [] \<longrightarrow>
            next_after (LowLevelFirst c) (fst ?out)
            = Some (SameOrigin (useApiAuth \<and> truthy apiAuthHeader \<and> includes_str u ''/rest/api/''))"
    using next_after_low_level_first [of c env u fname blobUrl useApiAuth apiAuthHeader st b] by blast
  have n4: "LowLevelAgain c \<in> set (fst ?out)
          \<and> (if c then fst (xhrAgain env) else snd (xhrAgain env)) = XhrLoad st (Some b)
          \<and> data b = [] \<longrightarrow>
            next_after (LowLevelAgain c) (fst ?out) = Some Streaming"
    using next_after_low_level_again [of c env u fname blobUrl useApiAuth apiAuthHeader st b] by blast
  have n5: "Streaming \<in> set (fst ?out)
          \<and> streamEvents env = replicate n (Message (chunk_message (streamId env) []))
                                 @ Message (complete_message (streamId env) ct) # evs \<longrightarrow>
            last (fst ?out) = Streaming \<and> snd ?out = None"
    using empty_stream_ends [of env u fname blobUrl useApiAuth apiAuthHeader n ct evs] by blast
  have n6: "SameOrigin h \<in> set (fst ?out)
          \<and> fetchSameOrigin env = Inr p \<and> ok p \<and> rtype p \<noteq> ''opaque''
          \<and> body_blob p = Some b \<and> data b = [] \<longrightarrow>
            last (fst ?out) = SameOrigin h \<and> snd ?out = None"
    using empty_same_origin_ends [of env p b h u fname blobUrl useApiAuth apiAuthHeader] by blast
  have n7: "Permissive \<in> set (fst ?out)
          \<and> fetchInclude env = Inr p \<and> ok p \<and> rtype p \<noteq> ''opaque''
          \<and> body_blob p = Some b \<and> data b = [] \<longrightarrow>
            last (fst ?out) = Permissive \<and> snd ?out = None"
    using empty_permissive_ends [of env p b u fname blobUrl useApiAuth apiAuthHeader] by blast
  have n8: "SameOriginRetry \<in> set (fst ?out)
          \<and> fetchRetry env = Inr p \<and> ok p \<and> body_blob p = Some b \<and> data b = [] \<longrightarrow>
            last (fst ?out) = SameOriginRetry \<and> snd ?out = None"
    using empty_retry_ends [of env p b u fname blobUrl useApiAuth apiAuthHeader] by blast
  show ?thesis
    unfolding Let_def
    by (intro conjI a b c d e g f n1 n2 n3 n4 n5 n6 n7 n8)
qed

text \<open>
  Runs on the network where only the stream answers, with one answer changed: an empty
  result of the blob URL, of the one-shot service, of the low-level request object before
  and after the fetches, each followed by the next strategy; a streaming session without a
  byte; and an empty ok response of the same-origin fetch, of the permissive fetch and of
  the second same-origin fetch, after which nothing is attempted.
\<close>

theorem empty_payload_guard_witness:
  "finish dead_network ''https://h/files/report.pdf'' ''report.pdf'' [SameOrigin False]
       (ok_page empty_blob) = ([SameOrigin False], None)
   \<and> downloadFile (dead_network\<lparr>blobFetch := Inr (ok_page empty_blob)\<rparr>)
        ''https://h/files/report.pdf'' ''report.pdf'' (Some ''blob:https://h/1'') False None
     = downloadFile (dead_network\<lparr>blobFetch := Inl ''Failed to fetch''\<rparr>)
        ''https://h/files/report.pdf'' ''report.pdf'' (Some ''blob:https://h/1'') False None
   \<and> next_after LocalHandle
        (fst (downloadFile (dead_network\<lparr>blobFetch := Inr (ok_page empty_blob)\<rparr>)
           ''https://h/files/report.pdf'' ''report.pdf'' (Some ''blob:https://h/1'') False None))
     = Some (SameOrigin False)
   \<and> next_after OneShot
        (fst (downloadFile
           (dead_network\<lparr>oneShot := Some \<lparr>success = True, payload = Some [], reply_type = ''text/html''\<rparr>\<rparr>)
           ''https://h/secure/attachment/1/report.pdf'' ''report.pdf'' None True (Some ''Basic dTpw'')))
     = Some (LowLevelFirst True)
   \<and> next_after (LowLevelFirst True)
        (fst (downloadFile (dead_network\<lparr>xhrFirst := (XhrLoad 200 (Some empty_blob), XhrError)\<rparr>)
           ''https://h/secure/attachment/1/report.pdf'' ''report.pdf'' None False None))
     = Some (SameOrigin False)
   \<and> next_after (LowLevelAgain True)
        (fst (downloadFile (dead_network\<lparr>xhrAgain := (XhrLoad 200 (Some empty_blob), XhrError)\<rparr>)
           ''https://h/files/report.pdf'' ''report.pdf'' None False None))
     = Some Streaming
   \<and> (last (fst (downloadFile
          (dead_network\<lparr>streamEvents := [Message (complete_message ''17-a3'' ''text/html'')]\<rparr>)
          ''https://h/files/report.pdf'' ''report.pdf'' None False None)) = Streaming
      \<and> snd (downloadFile
          (dead_network\<lparr>streamEvents := [Message (complete_message ''17-a3'' ''text/html'')]\<rparr>)
          ''https://h/files/report.pdf'' ''report.pdf'' None False None) = None)
   \<and> (last (fst (downloadFile (dead_network\<lparr>fetchSameOrigin := Inr (ok_page empty_blob)\<rparr>)
          ''https://h/files/report.pdf'' ''report.pdf'' None False None)) = SameOrigin False
      \<and> snd (downloadFile (dead_network\<lparr>fetchSameOrigin := Inr (ok_page empty_blob)\<rparr>)
          ''https://h/files/report.pdf'' ''report.pdf'' None False None) = None)
   \<and> (last (fst (downloadFile
          (dead_network\<lparr>fetchSameOrigin := Inr forbidden_page, fetchInclude := Inr (ok_page empty_blob)\<rparr>)
          ''https://h/files/report.pdf'' ''report.pdf'' None False None)) = Permissive
      \<and> snd (downloadFile
          (dead_network\<lparr>fetchSameOrigin := Inr forbidden_page, fetchInclude := Inr (ok_page empty_blob)\<rparr>)
          ''https://h/files/report.pdf'' ''report.pdf'' None False None) = None)
   \<and> (last (fst (downloadFile
          (dead_network\<lparr>fetchSameOrigin := Inr forbidden_page, fetchInclude := Inr forbidden_page,
                          fetchRetry := Inr (ok_page empty_blob)\<rparr>)
          ''https://h/files/report.pdf'' ''report.pdf'' None True (Some ''Basic dTpw''))) = SameOriginRetry
      \<and> snd (downloadFile
          (dead_network\<lparr>fetchSameOrigin := Inr forbidden_page, fetchInclude := Inr forbidden_page,
                          fetchRetry := Inr (ok_page empty_blob)\<rparr>)
          ''https://h/files/report.pdf'' ''report.pdf'' None True (Some ''Basic dTpw'')) = None)"
proof -
  note page = ok_page_def empty_blob_def forbidden_page_def
  from empty_payload_guard [where env = dead_network and u = "''https://h/files/report.pdf''"
          and fname = "''report.pdf''" and blobUrl = "Some ''blob:https://h/1''"
          and useApiAuth = False and apiAuthHeader = None and r = "ok_page empty_blob"
          and t = "''text/html''" and e = "''Failed to fetch''" and x = XhrError
          and rid = "''17-a3''" and n = 0 and ct = "''text/html''" and evs = "[]"
          and log = "[SameOrigin False]"]
  have old: "finish dead_network ''https://h/files/report.pdf'' ''report.pdf'' [SameOrigin False]
       (ok_page empty_blob) = ([SameOrigin False], None)
   \<and> downloadFile (dead_network\<lparr>blobFetch := Inr (ok_page empty_blob)\<rparr>)
        ''https://h/files/report.pdf'' ''report.pdf'' (Some ''blob:https://h/1'') False None
     = downloadFile (dead_network\<lparr>blobFetch := Inl ''Failed to fetch''\<rparr>)
        ''https://h/files/report.pdf'' ''report.pdf'' (Some ''blob:https://h/1'') False None"
    by (simp add: page)
  have h1: "has_handle (Some ''blob:https://h/1'') \<and> \<not> is_local_url ''https://h/files/report.pdf''
      \<and> blobFetch (dead_network\<lparr>blobFetch := Inr (ok_page empty_blob)\<rparr>) = Inr (ok_page empty_blob)
      \<and> ok (ok_page empty_blob) \<and> body_blob (ok_page empty_blob) = Some empty_blob
      \<and> data empty_blob = []"
    by (simp add: has_handle_def is_local_url_def page)
  from h1 empty_payload_guard [where env = "dead_network\<lparr>blobFetch := Inr (ok_page empty_blob)\<rparr>"
          and u = "''https://h/files/report.pdf''"
          and fname = "''report.pdf''" and blobUrl = "Some ''blob:https://h/1''"
          and useApiAuth = False and apiAuthHeader = None
          and p = "ok_page empty_blob" and b = empty_blob, THEN conjunct2, THEN conjunct2, THEN conjunct2, THEN conjunct2, THEN conjunct2,
          THEN conjunct2, THEN conjunct2, unfolded Let_def,
          THEN conjunct1]
  have w1: "next_after LocalHandle
        (fst (downloadFile (dead_network\<lparr>blobFetch := Inr (ok_page empty_blob)\<rparr>)
           ''https://h/files/report.pdf'' ''report.pdf'' (Some ''blob:https://h/1'') False None))
     = Some (SameOrigin False)"
    by (simp add: is_attachment_url_def)
  have h2: "OneShot \<in> set (fst (downloadFile
           (dead_network\<lparr>oneShot := Some \<lparr>success = True, payload = Some [], reply_type = ''text/html''\<rparr>\<rparr>)
           ''https://h/secure/attachment/1/report.pdf'' ''report.pdf'' None True (Some ''Basic dTpw'')))
      \<and> oneShot (dead_network\<lparr>oneShot := Some \<lparr>success = True, payload = Some [], reply_type = ''text/html''\<rparr>\<rparr>)
        = Some \<lparr>success = True, payload = Some [], reply_type = ''text/html''\<rparr>
      \<and> payload \<lparr>success = True, payload = Some [], reply_type = ''text/html''\<rparr> = Some []"
    by (simp add: cascade_defs dead_network_def)
  from h2 empty_payload_guard [where env = "dead_network\<lparr>oneShot := Some \<lparr>success = True, payload = Some [], reply_type = ''text/html''\<rparr>\<rparr>"
          and u = "''https://h/secure/attachment/1/report.pdf''"
          and fname = "''report.pdf''" and blobUrl = None
          and useApiAuth = True and apiAuthHeader = "Some ''Basic dTpw''"
          and rp = "\<lparr>success = True, payload = Some [], reply_type = ''text/html''\<rparr>",
          THEN conjunct2, THEN conjunct2, THEN conjunct2, THEN conjunct2, THEN conjunct2,
          THEN conjunct2, THEN conjunct2, unfolded Let_def,
          THEN conjunct2, THEN conjunct1]
  have w2: "next_after OneShot
        (fst (downloadFile
           (dead_network\<lparr>oneShot := Some \<lparr>success = True, payload = Some [], reply_type = ''text/html''\<rparr>\<rparr>)
           ''https://h/secure/attachment/1/report.pdf'' ''report.pdf'' None True (Some ''Basic dTpw'')))
     = Some (LowLevelFirst True)"
    by (simp add: is_attachment_url_def)
  have h3: "LowLevelFirst True \<in> set (fst (downloadFile
           (dead_network\<lparr>xhrFirst := (XhrLoad 200 (Some empty_blob), XhrError)\<rparr>)
           ''https://h/secure/attachment/1/report.pdf'' ''report.pdf'' None False None))
      \<and> (if True then fst (xhrFirst (dead_network\<lparr>xhrFirst := (XhrLoad 200 (Some empty_blob), XhrError)\<rparr>))
          else snd (xhrFirst (dead_network\<lparr>xhrFirst := (XhrLoad 200 (Some empty_blob), XhrError)\<rparr>)))
        = XhrLoad 200 (Some empty_blob)
      \<and> data empty_blob = []"
    by (simp add: cascade_defs dead_network_def page)
  from h3 empty_payload_guard [where env = "dead_network\<lparr>xhrFirst := (XhrLoad 200 (Some empty_blob), XhrError)\<rparr>"
          and u = "''https://h/secure/attachment/1/report.pdf''"
          and fname = "''report.pdf''" and blobUrl = None
          and useApiAuth = False and apiAuthHeader = None
          and c = True and st = 200 and b = empty_blob,
          THEN conjunct2, THEN conjunct2, THEN conjunct2, THEN conjunct2, THEN conjunct2,
          THEN conjunct2, THEN conjunct2, unfolded Let_def,
          THEN conjunct2, THEN conjunct2, THEN conjunct1]
  have w3: "next_after (LowLevelFirst True)
        (fst (downloadFile (dead_network\<lparr>xhrFirst := (XhrLoad 200 (Some empty_blob), XhrError)\<rparr>)
           ''https://h/secure/attachment/1/report.pdf'' ''report.pdf'' None False None))
     = Some (SameOrigin False)"
    by simp
  have h4: "LowLevelAgain True \<in> set (fst (downloadFile
           (dead_network\<lparr>xhrAgain := (XhrLoad 200 (Some empty_blob), XhrError)\<rparr>)
           ''https://h/files/report.pdf'' ''report.pdf'' None False None))
      \<and> (if True then fst (xhrAgain (dead_network\<lparr>xhrAgain := (XhrLoad 200 (Some empty_blob), XhrError)\<rparr>))
          else snd (xhrAgain (dead_network\<lparr>xhrAgain := (XhrLoad 200 (Some empty_blob), XhrError)\<rparr>)))
        = XhrLoad 200 (Some empty_blob)
      \<and> data empty_blob = []"
    by (simp add: cascade_defs dead_network_def page)
  from h4 empty_payload_guard [where env = "dead_network\<lparr>xhrAgain := (XhrLoad 200 (Some empty_blob), XhrError)\<rparr>"
          and u = "''https://h/files/report.pdf''"
          and fname = "''report.pdf''" and blobUrl = None
          and useApiAuth = False and apiAuthHeader = None
          and c = True and st = 200 and b = empty_blob,
          THEN conjunct2, THEN conjunct2, THEN conjunct2, THEN conjunct2, THEN conjunct2,
          THEN conjunct2, THEN conjunct2, unfolded Let_def,
          THEN conjunct2, THEN conjunct2, THEN conjunct2, THEN conjunct1]
  have w4: "next_after (LowLevelAgain True)
        (fst (downloadFile (dead_network\<lparr>xhrAgain := (XhrLoad 200 (Some empty_blob), XhrError)\<rparr>)
           ''https://h/files/report.pdf'' ''report.pdf'' None False None))
     = Some Streaming"
    by simp
  have h5: "Streaming \<in> set (fst (downloadFile
          (dead_network\<lparr>streamEvents := [Message (complete_message ''17-a3'' ''text/html'')]\<rparr>)
          ''https://h/files/report.pdf'' ''report.pdf'' None False None))
      \<and> streamEvents (dead_network\<lparr>streamEvents := [Message (complete_message ''17-a3'' ''text/html'')]\<rparr>)
        = replicate 0 (Message (chunk_message
             (streamId (dead_network\<lparr>streamEvents := [Message (complete_message ''17-a3'' ''text/html'')]\<rparr>)) []))
          @ Message (complete_message
             (streamId (dead_network\<lparr>streamEvents := [Message (complete_message ''17-a3'' ''text/html'')]\<rparr>))
             ''text/html'') # []"
    by (simp add: cascade_defs dead_network_def)
  from h5 empty_payload_guard [where env = "dead_network\<lparr>streamEvents := [Message (complete_message ''17-a3'' ''text/html'')]\<rparr>"
          and u = "''https://h/files/report.pdf''"
          and fname = "''report.pdf''" and blobUrl = None
          and useApiAuth = False and apiAuthHeader = None
          and n = 0 and ct = "''text/html''" and evs = "[]",
          THEN conjunct2, THEN conjunct2, THEN conjunct2, THEN conjunct2, THEN conjunct2,
          THEN conjunct2, THEN conjunct2, unfolded Let_def,
          THEN conjunct2, THEN conjunct2, THEN conjunct2, THEN conjunct2, THEN conjunct1]
  have w5: "last (fst (downloadFile
          (dead_network\<lparr>streamEvents := [Message (complete_message ''17-a3'' ''text/html'')]\<rparr>)
          ''https://h/files/report.pdf'' ''report.pdf'' None False None)) = Streaming
      \<and> snd (downloadFile
          (dead_network\<lparr>streamEvents := [Message (complete_message ''17-a3'' ''text/html'')]\<rparr>)
          ''https://h/files/report.pdf'' ''report.pdf'' None False None) = None"
    by blast
  have h6: "SameOrigin False \<in> set (fst (downloadFile
         (dead_network\<lparr>fetchSameOrigin := Inr (ok_page empty_blob)\<rparr>)
         ''https://h/files/report.pdf'' ''report.pdf'' None False None))
      \<and> fetchSameOrigin (dead_network\<lparr>fetchSameOrigin := Inr (ok_page empty_blob)\<rparr>)
        = Inr (ok_page empty_blob)
      \<and> ok (ok_page empty_blob) \<and> rtype (ok_page empty_blob) \<noteq> ''opaque''
      \<and> body_blob (ok_page empty_blob) = Some empty_blob \<and> data empty_blob = []"
    by (simp add: cascade_defs dead_network_def page)
  from h6 empty_payload_guard [where env = "dead_network\<lparr>fetchSameOrigin := Inr (ok_page empty_blob)\<rparr>"
          and u = "''https://h/files/report.pdf''"
          and fname = "''report.pdf''" and blobUrl = None
          and useApiAuth = False and apiAuthHeader = None
          and p = "ok_page empty_blob" and b = empty_blob and h = False,
          THEN conjunct2, THEN conjunct2, THEN conjunct2, THEN conjunct2, THEN conjunct2,
          THEN conjunct2, THEN conjunct2, unfolded Let_def,
          THEN conjunct2, THEN conjunct2, THEN conjunct2, THEN conjunct2, THEN conjunct2,
          THEN conjunct1]
  have w6: "last (fst (downloadFile (dead_network\<lparr>fetchSameOrigin := Inr (ok_page empty_blob)\<rparr>)
        ''https://h/files/report.pdf'' ''report.pdf'' None False None)) = SameOrigin False
   \<and> snd (downloadFile (dead_network\<lparr>fetchSameOrigin := Inr (ok_page empty_blob)\<rparr>)
        ''https://h/files/report.pdf'' ''report.pdf'' None False None) = None"
    by blast
  have h7: "Permissive \<in> set (fst (downloadFile
         (dead_network\<lparr>fetchSameOrigin := Inr forbidden_page, fetchInclude := Inr (ok_page empty_blob)\<rparr>)
         ''https://h/files/report.pdf'' ''report.pdf'' None False None))
      \<and> fetchInclude (dead_network\<lparr>fetchSameOrigin := Inr forbidden_page,
                                   fetchInclude := Inr (ok_page empty_blob)\<rparr>)
        = Inr (ok_page empty_blob)
      \<and> ok (ok_page empty_blob) \<and> rtype (ok_page empty_blob) \<noteq> ''opaque''
      \<and> body_blob (ok_page empty_blob) = Some empty_blob \<and> data empty_blob = []"
    by (simp add: cascade_defs dead_network_def page)
  from h7 empty_payload_guard [where env = "dead_network\<lparr>fetchSameOrigin := Inr forbidden_page,
                                              fetchInclude := Inr (ok_page empty_blob)\<rparr>"
          and u = "''https://h/files/report.pdf''"
          and fname = "''report.pdf''" and blobUrl = None
          and useApiAuth = False and apiAuthHeader = None
          and p = "ok_page empty_blob" and b = empty_blob,
          THEN conjunct2, THEN conjunct2, THEN conjunct2, THEN conjunct2, THEN conjunct2,
          THEN conjunct2, THEN conjunct2, unfolded Let_def,
          THEN conjunct2, THEN conjunct2, THEN conjunct2, THEN conjunct2, THEN conjunct2,
          THEN conjunct2, THEN conjunct1]
  have w7: "last (fst (downloadFile
          (dead_network\<lparr>fetchSameOrigin := Inr forbidden_page, fetchInclude := Inr (ok_page empty_blob)\<rparr>)
          ''https://h/files/report.pdf'' ''report.pdf'' None False None)) = Permissive
      \<and> snd (downloadFile
          (dead_network\<lparr>fetchSameOrigin := Inr forbidden_page, fetchInclude := Inr (ok_page empty_blob)\<rparr>)
          ''https://h/files/report.pdf'' ''report.pdf'' None False None) = None"
    by blast
  have h8: "SameOriginRetry \<in> set (fst (downloadFile
          (dead_network\<lparr>fetchSameOrigin := Inr forbidden_page, fetchInclude := Inr forbidden_page,
                          fetchRetry := Inr (ok_page empty_blob)\<rparr>)
          ''https://h/files/report.pdf'' ''report.pdf'' None True (Some ''Basic dTpw'')))
      \<and> fetchRetry (dead_network\<lparr>fetchSameOrigin := Inr forbidden_page, fetchInclude := Inr forbidden_page,
                          fetchRetry := Inr (ok_page empty_blob)\<rparr>)
        = Inr (ok_page empty_blob)
      \<and> ok (ok_page empty_blob)
      \<and> body_blob (ok_page empty_blob) = Some empty_blob \<and> data empty_blob = []"
    by (simp add: cascade_defs dead_network_def page)
  from h8 empty_payload_guard [where env = "dead_network\<lparr>fetchSameOrigin := Inr forbidden_page,
                     fetchInclude := Inr forbidden_page, fetchRetry := Inr (ok_page empty_blob)\<rparr>"
          and u = "''https://h/files/report.pdf''"
          and fname = "''report.pdf''" and blobUrl = None
          and useApiAuth = True and apiAuthHeader = "Some ''Basic dTpw''"
          and p = "ok_page empty_blob" and b = empty_blob,
          THEN conjunct2, THEN conjunct2, THEN conjunct2, THEN conjunct2, THEN conjunct2,
          THEN conjunct2, THEN conjunct2, unfolded Let_def,
          THEN conjunct2, THEN conjunct2, THEN conjunct2, THEN conjunct2, THEN conjunct2,
          THEN conjunct2, THEN conjunct2]
  have w8: "last (fst (downloadFile
          (dead_network\<lparr>fetchSameOrigin := Inr forbidden_page, fetchInclude := Inr forbidden_page,
                          fetchRetry := Inr (ok_page empty_blob)\<rparr>)
          ''https://h/files/report.pdf'' ''report.pdf'' None True (Some ''Basic dTpw''))) = SameOriginRetry
      \<and> snd (downloadFile
          (dead_network\<lparr>fetchSameOrigin := Inr forbidden_page, fetchInclude := Inr forbidden_page,
                          fetchRetry := Inr (ok_page empty_blob)\<rparr>)
          ''https://h/files/report.pdf'' ''report.pdf'' None True (Some ''Basic dTpw'')) = None"
    by blast
  from old have o1: "finish dead_network ''https://h/files/report.pdf'' ''report.pdf'' [SameOrigin False]
       (ok_page empty_blob) = ([SameOrigin False], None)"
    and o2: "downloadFile (dead_network\<lparr>blobFetch := Inr (ok_page empty_blob)\<rparr>)
        ''https://h/files/report.pdf'' ''report.pdf'' (Some ''blob:https://h/1'') False None
     = downloadFile (dead_network\<lparr>blobFetch := Inl ''Failed to fetch''\<rparr>)
        ''https://h/files/report.pdf'' ''report.pdf'' (Some ''blob:https://h/1'') False None"
    by simp_all
  show ?thesis
    by (intro conjI o1 o2 w1 w2 w3 w4 w5 [THEN conjunct1] w5 [THEN conjunct2]
          w6 [THEN conjunct1] w6 [THEN conjunct2] w7 [THEN conjunct1] w7 [THEN conjunct2]
          w8 [THEN conjunct1] w8 [THEN conjunct2])
qed

text \<open>
  The claim as stated fails for the in-context fetch: when the same-origin fetch answers ok
  with an empty body, \<^verbatim>\<open>downloadFile\<close> returns \<^verbatim>\<open>null\<close> after this one attempt,
  although the stream would have delivered the file, as it does when the same fetch fails.
\<close>

theorem empty_payload_guard_counterexample:
  "downloadFile (dead_network\<lparr>fetchSameOrigin := Inr (ok_page empty_blob)\<rparr>)
     ''https://h/files/report.pdf'' ''report.pdf'' None False None
   = ([SameOrigin False], None)
   \<and> downloadFile dead_network ''https://h/files/report.pdf'' ''report.pdf'' None False None
   = ([SameOrigin False, LowLevelAgain True, Streaming],
      Some \<lparr>filename = ''report.pdf'', blob = pdf_blob\<rparr>)"
  by (simp add: cascade_defs dead_network_def ok_page_def empty_blob_def pdf_stream_result)

text \<open>
  Claim C8 (order of the cascade), as amended. The strategies are attempted in the order
  of the code, each at most once; every attempt but the last yielded nothing and the
  result is what the last attempt yielded, so the cascade stops at the first strategy that
  yields a payload, which is never empty. The attempts are exactly the strategies of
  \<open>plan\<close> up to the first that yields. The local handle is attempted exactly when a
  blob URL is given that starts with \<^verbatim>\<open>blob:\<close>, and it is the only possible attempt
  when the URL itself is a \<^verbatim>\<open>blob:\<close> or \<^verbatim>\<open>data:\<close> URL; the one-shot service is
  attempted only under API
  authentication; the low-level request object before the fetches only for attachment
  URLs, and without credentials only after an \<^verbatim>\<open>onerror\<close> of the request with
  credentials; the same-origin fetch carries the \<^verbatim>\<open>Authorization\<close> header exactly
  under API authentication for a URL with \<^verbatim>\<open>/rest/api/\<close>; the permissive fetch only
  after a same-origin response that is not ok; the second same-origin fetch only under API
  authentication after a 403 of the permissive fetch; the low-level request object after
  the fetches only after a rejected same-origin fetch or a 403 of the permissive fetch
  (where, under API authentication, the second same-origin fetch is rejected or answers
  not ok with 403 or \<^verbatim>\<open>opaque\<close>); and the stream is the last attempt whenever it is
  attempted. A local handle that yields a payload is the only attempt.
\<close>

theorem cascade_order:
  "(let out = downloadFile env u fname blobUrl useApiAuth apiAuthHeader; log = fst out
    in sorted_wrt (<) (map stage log)
       \<and> list_all (\<lambda>st. yield env u fname st = None) (butlast log)
       \<and> snd out = (if log = [] then None else yield env u fname (last log))
       \<and> (case snd out of None \<Rightarrow> True | Some res \<Rightarrow> data (blob res) \<noteq> [])
       \<and> log = until_yield (yield env u fname) (plan env u blobUrl useApiAuth apiAuthHeader)
       \<and> (LocalHandle \<in> set log \<longleftrightarrow> has_handle blobUrl)
       \<and> (is_local_url u \<longrightarrow> log = (if has_handle blobUrl then [LocalHandle] else []))
       \<and> (OneShot \<in> set log \<longrightarrow> useApiAuth \<and> truthy apiAuthHeader)
       \<and> (LowLevelFirst c \<in> set log \<longrightarrow>
            is_attachment_url u \<and> (\<not> c \<longrightarrow> fst (xhrFirst env) = XhrError))
       \<and> (SameOrigin h \<in> set log \<longrightarrow>
            h = (useApiAuth \<and> truthy apiAuthHeader \<and> includes_str u ''/rest/api/''))
       \<and> (Permissive \<in> set log \<longrightarrow> (\<exists>r1. fetchSameOrigin env = Inr r1 \<and> \<not> ok r1))
       \<and> (SameOriginRetry \<in> set log \<longrightarrow>
            useApiAuth \<and> truthy apiAuthHeader
            \<and> (\<exists>r2. fetchInclude env = Inr r2 \<and> \<not> ok r2 \<and> status r2 = 403
                  \<and> rtype r2 \<noteq> ''opaque''))
       \<and> (LowLevelAgain c \<in> set log \<longrightarrow>
            (\<not> c \<longrightarrow> fst (xhrAgain env) = XhrError)
            \<and> ((\<exists>e. fetchSameOrigin env = Inl e)
               \<or> (\<exists>r2. fetchInclude env = Inr r2 \<and> \<not> ok r2 \<and> status r2 = 403
                     \<and> (useApiAuth \<and> truthy apiAuthHeader \<longrightarrow>
                          (\<exists>e. fetchRetry env = Inl e)
                          \<or> (\<exists>r3. fetchRetry env = Inr r3 \<and> \<not> ok r3
                                \<and> (status r3 = 403 \<or> rtype r3 = ''opaque''))))))
       \<and> (Streaming \<in> set log \<longrightarrow> last log = Streaming))
   \<and> (startsWith bu ''blob:'' \<and> local_handle (blobFetch env) fname = Some found \<longrightarrow>
        downloadFile env u fname (Some bu) useApiAuth apiAuthHeader = ([LocalHandle], Some found))"
proof -
  let ?out = "downloadFile env u fname blobUrl useApiAuth apiAuthHeader"
  have fs: "first_success env u fname ?out"
    by (rule downloadFile_first_success)
  have a1: "sorted_wrt (<) (map stage (fst ?out))"
    and a2: "list_all (\<lambda>st. yield env u fname st = None) (butlast (fst ?out))"
    and a3: "snd ?out = (if fst ?out = [] then None else yield env u fname (last (fst ?out)))"
    using fs by (simp_all add: first_success_def)
  have a4: "(case snd ?out of None \<Rightarrow> True | Some res \<Rightarrow> data (blob res) \<noteq> [])"
    using downloadFile_nonempty [of env u fname blobUrl useApiAuth apiAuthHeader]
    by (simp add: nonempty_result_def)
  have a5: "fst ?out = until_yield (yield env u fname) (plan env u blobUrl useApiAuth apiAuthHeader)"
    by (rule downloadFile_log)
  have a6: "LocalHandle \<in> set (fst ?out) \<longleftrightarrow> has_handle blobUrl"
    by (rule local_handle_attempted)
  have a7: "is_local_url u \<longrightarrow> fst ?out = (if has_handle blobUrl then [LocalHandle] else [])"
    by (simp add: local_url_attempts)
  have a8: "OneShot \<in> set (fst ?out) \<longrightarrow> useApiAuth \<and> truthy apiAuthHeader"
    using attempt_conditions [of OneShot env u fname blobUrl useApiAuth apiAuthHeader] by auto
  have a9: "LowLevelFirst c \<in> set (fst ?out) \<longrightarrow>
            is_attachment_url u \<and> (\<not> c \<longrightarrow> fst (xhrFirst env) = XhrError)"
    using attempt_conditions [of "LowLevelFirst c" env u fname blobUrl useApiAuth apiAuthHeader] by auto
  have a10: "SameOrigin h \<in> set (fst ?out) \<longrightarrow>
            h = (useApiAuth \<and> truthy apiAuthHeader \<and> includes_str u ''/rest/api/'')"
    using attempt_conditions [of "SameOrigin h" env u fname blobUrl useApiAuth apiAuthHeader] by auto
  have a11: "Permissive \<in> set (fst ?out) \<longrightarrow> (\<exists>r1. fetchSameOrigin env = Inr r1 \<and> \<not> ok r1)"
    using attempt_conditions [of Permissive env u fname blobUrl useApiAuth apiAuthHeader] by auto
  have a12: "SameOriginRetry \<in> set (fst ?out) \<longrightarrow>
            useApiAuth \<and> truthy apiAuthHeader
            \<and> (\<exists>r2. fetchInclude env = Inr r2 \<and> \<not> ok r2 \<and> status r2 = 403
                  \<and> rtype r2 \<noteq> ''opaque'')"
    using attempt_conditions [of SameOriginRetry env u fname blobUrl useApiAuth apiAuthHeader] by auto
  have a13: "LowLevelAgain c \<in> set (fst ?out) \<longrightarrow>
            (\<not> c \<longrightarrow> fst (xhrAgain env) = XhrError)
            \<and> ((\<exists>e. fetchSameOrigin env = Inl e)
               \<or> (\<exists>r2. fetchInclude env = Inr r2 \<and> \<not> ok r2 \<and> status r2 = 403
                     \<and> (useApiAuth \<and> truthy apiAuthHeader \<longrightarrow>
                          (\<exists>e. fetchRetry env = Inl e)
                          \<or> (\<exists>r3. fetchRetry env = Inr r3 \<and> \<not> ok r3
                                \<and> (status r3 = 403 \<or> rtype r3 = ''opaque'')))))"
  proof
    assume "LowLevelAgain c \<in> set (fst ?out)"
    from attempt_conditions [OF this]
    show "(\<not> c \<longrightarrow> fst (xhrAgain env) = XhrError)
            \<and> ((\<exists>e. fetchSameOrigin env = Inl e)
               \<or> (\<exists>r2. fetchInclude env = Inr r2 \<and> \<not> ok r2 \<and> status r2 = 403
                     \<and> (useApiAuth \<and> truthy apiAuthHeader \<longrightarrow>
                          (\<exists>e. fetchRetry env = Inl e)
                          \<or> (\<exists>r3. fetchRetry env = Inr r3 \<and> \<not> ok r3
                                \<and> (status r3 = 403 \<or> rtype r3 = ''opaque'')))))"
      by simp
  qed
  have a14: "Streaming \<in> set (fst ?out) \<longrightarrow> last (fst ?out) = Streaming"
    using streaming_last by blast
  have b: "startsWith bu ''blob:'' \<and> local_handle (blobFetch env) fname = Some found \<longrightarrow>
        downloadFile env u fname (Some bu) useApiAuth apiAuthHeader = ([LocalHandle], Some found)"
    by (cases bu) (auto simp: downloadFile_def)
  show ?thesis
    unfolding Let_def
    by (intro conjI a1 a2 a3 a4 a5 a6 a7 a8 a9 a10 a11 a12 a13 a14 b)
qed

text \<open>
  A blob URL that yields the file; an attachment URL under API authentication on the
  network where only the stream answers; a URL of the API under API authentication where
  the same-origin and the permissive fetch answer 403; and a \<^verbatim>\<open>data:\<close> URL with a blob
  URL.
\<close>

theorem cascade_order_witness:
  "downloadFile (dead_network\<lparr>blobFetch := Inr (ok_page pdf_blob)\<rparr>)
      ''https://h/secure/attachment/1/report.pdf'' ''report.pdf'' (Some ''blob:https://h/1'')
      True (Some ''Basic dTpw'')
   = ([LocalHandle], Some \<lparr>filename = ''report.pdf'', blob = pdf_blob\<rparr>)
   \<and> fst (downloadFile dead_network
      ''https://h/secure/attachment/1/report.pdf'' ''report.pdf'' None True (Some ''Basic dTpw''))
     = [OneShot, LowLevelFirst True, SameOrigin False, LowLevelAgain True, Streaming]
   \<and> until_yield (yield dead_network ''https://h/secure/attachment/1/report.pdf'' ''report.pdf'')
        (plan dead_network ''https://h/secure/attachment/1/report.pdf'' None True (Some ''Basic dTpw''))
     = [OneShot, LowLevelFirst True, SameOrigin False, LowLevelAgain True, Streaming]
   \<and> sorted_wrt (<) (map stage (fst (downloadFile dead_network
      ''https://h/secure/attachment/1/report.pdf'' ''report.pdf'' None True (Some ''Basic dTpw''))))
   \<and> snd (downloadFile dead_network
      ''https://h/secure/attachment/1/report.pdf'' ''report.pdf'' None True (Some ''Basic dTpw''))
     = yield dead_network ''https://h/secure/attachment/1/report.pdf'' ''report.pdf'' Streaming
   \<and> truthy (Some ''Basic dTpw'')
   \<and> is_attachment_url ''https://h/secure/attachment/1/report.pdf''
   \<and> \<not> includes_str ''https://h/secure/attachment/1/report.pdf'' ''/rest/api/''
   \<and> last (fst (downloadFile dead_network
      ''https://h/secure/attachment/1/report.pdf'' ''report.pdf'' None True (Some ''Basic dTpw''))) = Streaming
   \<and> fst (downloadFile forbidden_network
      ''https://h/rest/api/3/issue/1/thumb'' ''report.pdf'' None True (Some ''Basic dTpw''))
     = [OneShot, SameOrigin True, Permissive, SameOriginRetry, LowLevelAgain True, Streaming]
   \<and> includes_str ''https://h/rest/api/3/issue/1/thumb'' ''/rest/api/''
   \<and> (\<exists>r1. fetchSameOrigin forbidden_network = Inr r1 \<and> \<not> ok r1)
   \<and> (\<exists>r2. fetchInclude forbidden_network = Inr r2 \<and> \<not> ok r2 \<and> status r2 = 403
          \<and> rtype r2 \<noteq> ''opaque'')
   \<and> (\<exists>e. fetchRetry forbidden_network = Inl e)
   \<and> fst (downloadFile dead_network
      ''data:text/plain,hi'' ''report.pdf'' (Some ''blob:https://h/1'') False None) = [LocalHandle]"
proof -
  have log: "fst (downloadFile dead_network
      ''https://h/secure/attachment/1/report.pdf'' ''report.pdf'' None True (Some ''Basic dTpw''))
     = [OneShot, LowLevelFirst True, SameOrigin False, LowLevelAgain True, Streaming]"
    by (simp add: cascade_defs dead_network_def)
  have logB: "fst (downloadFile forbidden_network
      ''https://h/rest/api/3/issue/1/thumb'' ''report.pdf'' None True (Some ''Basic dTpw''))
     = [OneShot, SameOrigin True, Permissive, SameOriginRetry, LowLevelAgain True, Streaming]"
    by (simp add: cascade_defs forbidden_network_def dead_network_def forbidden_page_def)
  have h: "startsWith ''blob:https://h/1'' ''blob:''
        \<and> local_handle (blobFetch (dead_network\<lparr>blobFetch := Inr (ok_page pdf_blob)\<rparr>)) ''report.pdf''
          = Some \<lparr>filename = ''report.pdf'', blob = pdf_blob\<rparr>"
    by (simp add: local_handle_def ok_page_def pdf_blob_def)
  from h cascade_order [where env = "dead_network\<lparr>blobFetch := Inr (ok_page pdf_blob)\<rparr>"
        and u = "''https://h/secure/attachment/1/report.pdf''" and fname = "''report.pdf''"
        and bu = "''blob:https://h/1''" and useApiAuth = True and apiAuthHeader = "Some ''Basic dTpw''"
        and found = "\<lparr>filename = ''report.pdf'', blob = pdf_blob\<rparr>", THEN conjunct2]
  have first: "downloadFile (dead_network\<lparr>blobFetch := Inr (ok_page pdf_blob)\<rparr>)
      ''https://h/secure/attachment/1/report.pdf'' ''report.pdf'' (Some ''blob:https://h/1'')
      True (Some ''Basic dTpw'')
   = ([LocalHandle], Some \<lparr>filename = ''report.pdf'', blob = pdf_blob\<rparr>)"
    by blast
  from cascade_order [where env = "dead_network"
        and u = "''https://h/secure/attachment/1/report.pdf''" and fname = "''report.pdf''"
        and blobUrl = "None" and useApiAuth = True and apiAuthHeader = "Some ''Basic dTpw''",
        THEN conjunct1, unfolded Let_def, THEN conjunct1]
  have sorted: "sorted_wrt (<) (map stage (fst (downloadFile dead_network
      ''https://h/secure/attachment/1/report.pdf'' ''report.pdf'' None True (Some ''Basic dTpw''))))" .
  from cascade_order [where env = "dead_network"
        and u = "''https://h/secure/attachment/1/report.pdf''" and fname = "''report.pdf''"
        and blobUrl = "None" and useApiAuth = True and apiAuthHeader = "Some ''Basic dTpw''",
        THEN conjunct1, unfolded Let_def, THEN conjunct2, THEN conjunct2, THEN conjunct1]
  have result: "snd (downloadFile dead_network
      ''https://h/secure/attachment/1/report.pdf'' ''report.pdf'' None True (Some ''Basic dTpw''))
     = yield dead_network ''https://h/secure/attachment/1/report.pdf'' ''report.pdf'' Streaming"
    by (simp add: log del: yield.simps)
  from cascade_order [where env = "dead_network"
        and u = "''https://h/secure/attachment/1/report.pdf''" and fname = "''report.pdf''"
        and blobUrl = "None" and useApiAuth = True and apiAuthHeader = "Some ''Basic dTpw''",
        THEN conjunct1, unfolded Let_def, THEN conjunct2, THEN conjunct2, THEN conjunct2,
        THEN conjunct2, THEN conjunct1]
  have planned: "until_yield (yield dead_network ''https://h/secure/attachment/1/report.pdf'' ''report.pdf'')
        (plan dead_network ''https://h/secure/attachment/1/report.pdf'' None True (Some ''Basic dTpw''))
     = [OneShot, LowLevelFirst True, SameOrigin False, LowLevelAgain True, Streaming]"
    by (simp add: log)
  from cascade_order [where env = "dead_network"
        and u = "''https://h/secure/attachment/1/report.pdf''" and fname = "''report.pdf''"
        and blobUrl = "None" and useApiAuth = True and apiAuthHeader = "Some ''Basic dTpw''",
        THEN conjunct1, unfolded Let_def, THEN conjunct2, THEN conjunct2, THEN conjunct2,
        THEN conjunct2, THEN conjunct2, THEN conjunct2, THEN conjunct2, THEN conjunct1]
  have auth: "truthy (Some ''Basic dTpw'')"
    by (simp add: log)
  from cascade_order [where env = "dead_network"
        and u = "''https://h/secure/attachment/1/report.pdf''" and fname = "''report.pdf''"
        and blobUrl = "None" and useApiAuth = True and apiAuthHeader = "Some ''Basic dTpw''" and c = True,
        THEN conjunct1, unfolded Let_def, THEN conjunct2, THEN conjunct2, THEN conjunct2,
        THEN conjunct2, THEN conjunct2, THEN conjunct2, THEN conjunct2, THEN conjunct2,
        THEN conjunct1]
  have att: "is_attachment_url ''https://h/secure/attachment/1/report.pdf''"
    by (simp add: log)
  from cascade_order [where env = "dead_network"
        and u = "''https://h/secure/attachment/1/report.pdf''" and fname = "''report.pdf''"
        and blobUrl = "None" and useApiAuth = True and apiAuthHeader = "Some ''Basic dTpw''" and h = False,
        THEN conjunct1, unfolded Let_def, THEN conjunct2, THEN conjunct2, THEN conjunct2,
        THEN conjunct2, THEN conjunct2, THEN conjunct2, THEN conjunct2, THEN conjunct2,
        THEN conjunct2, THEN conjunct1]
  have plain: "\<not> includes_str ''https://h/secure/attachment/1/report.pdf'' ''/rest/api/''"
    by (simp add: log truthy_def)
  from cascade_order [where env = "dead_network"
        and u = "''https://h/secure/attachment/1/report.pdf''" and fname = "''report.pdf''"
        and blobUrl = "None" and useApiAuth = True and apiAuthHeader = "Some ''Basic dTpw''",
        THEN conjunct1, unfolded Let_def, THEN conjunct2, THEN conjunct2, THEN conjunct2,
        THEN conjunct2, THEN conjunct2, THEN conjunct2, THEN conjunct2, THEN conjunct2,
        THEN conjunct2, THEN conjunct2, THEN conjunct2, THEN conjunct2, THEN conjunct2]
  have stream: "last (fst (downloadFile dead_network
      ''https://h/secure/attachment/1/report.pdf'' ''report.pdf'' None True (Some ''Basic dTpw''))) = Streaming"
    by (simp add: log)
  from cascade_order [where env = forbidden_network
        and u = "''https://h/rest/api/3/issue/1/thumb''" and fname = "''report.pdf''"
        and blobUrl = "None" and useApiAuth = True and apiAuthHeader = "Some ''Basic dTpw''" and h = True,
        THEN conjunct1, unfolded Let_def, THEN conjunct2, THEN conjunct2, THEN conjunct2,
        THEN conjunct2, THEN conjunct2, THEN conjunct2, THEN conjunct2, THEN conjunct2,
        THEN conjunct2, THEN conjunct1]
  have header: "includes_str ''https://h/rest/api/3/issue/1/thumb'' ''/rest/api/''"
    by (simp add: logB)
  from cascade_order [where env = forbidden_network
        and u = "''https://h/rest/api/3/issue/1/thumb''" and fname = "''report.pdf''"
        and blobUrl = "None" and useApiAuth = True and apiAuthHeader = "Some ''Basic dTpw''",
        THEN conjunct1, unfolded Let_def, THEN conjunct2, THEN conjunct2, THEN conjunct2,
        THEN conjunct2, THEN conjunct2, THEN conjunct2, THEN conjunct2, THEN conjunct2,
        THEN conjunct2, THEN conjunct2, THEN conjunct1]
  have perm: "\<exists>r1. fetchSameOrigin forbidden_network = Inr r1 \<and> \<not> ok r1"
    by (simp add: logB)
  from cascade_order [where env = forbidden_network
        and u = "''https://h/rest/api/3/issue/1/thumb''" and fname = "''report.pdf''"
        and blobUrl = "None" and useApiAuth = True and apiAuthHeader = "Some ''Basic dTpw''",
        THEN conjunct1, unfolded Let_def, THEN conjunct2, THEN conjunct2, THEN conjunct2,
        THEN conjunct2, THEN conjunct2, THEN conjunct2, THEN conjunct2, THEN conjunct2,
        THEN conjunct2, THEN conjunct2, THEN conjunct2, THEN conjunct1]
  have retry: "\<exists>r2. fetchInclude forbidden_network = Inr r2 \<and> \<not> ok r2 \<and> status r2 = 403
          \<and> rtype r2 \<noteq> ''opaque''"
    by (simp add: logB)
  from cascade_order [where env = forbidden_network
        and u = "''https://h/rest/api/3/issue/1/thumb''" and fname = "''report.pdf''"
        and blobUrl = "None" and useApiAuth = True and apiAuthHeader = "Some ''Basic dTpw''" and c = True,
        THEN conjunct1, unfolded Let_def, THEN conjunct2, THEN conjunct2, THEN conjunct2,
        THEN conjunct2, THEN conjunct2, THEN conjunct2, THEN conjunct2, THEN conjunct2,
        THEN conjunct2, THEN conjunct2, THEN conjunct2, THEN conjunct2, THEN conjunct1]
  have again: "\<exists>e. fetchRetry forbidden_network = Inl e"
    by (simp add: logB truthy_def forbidden_network_def forbidden_page_def dead_network_def)
  have "is_local_url ''data:text/plain,hi''" "has_handle (Some ''blob:https://h/1'')"
    by (simp_all add: is_local_url_def has_handle_def)
  with cascade_order [where env = "dead_network"
        and u = "''data:text/plain,hi''" and fname = "''report.pdf''"
        and blobUrl = "Some ''blob:https://h/1''" and useApiAuth = False and apiAuthHeader = "None",
        THEN conjunct1, unfolded Let_def, THEN conjunct2, THEN conjunct2, THEN conjunct2,
        THEN conjunct2, THEN conjunct2, THEN conjunct2, THEN conjunct1]
  have local: "fst (downloadFile dead_network
      ''data:text/plain,hi'' ''report.pdf'' (Some ''blob:https://h/1'') False None) = [LocalHandle]"
    by simp
  show ?thesis
    by (intro conjI first log planned sorted result auth att plain stream logB header perm retry
          again local)
qed

text \<open>
  The order of the claim as stated fails: for an attachment URL the low-level request
  object (sixth in the specification) is attempted before the same-origin fetch (third).
\<close>

theorem cascade_order_counterexample:
  "\<not> sorted (map spec_rank (fst (downloadFile
        (dead_network\<lparr>fetchSameOrigin := Inr (ok_page pdf_blob)\<rparr>)
        ''https://h/secure/attachment/1/report.pdf'' ''report.pdf'' None False None)))"
proof -
  have "fst (downloadFile (dead_network\<lparr>fetchSameOrigin := Inr (ok_page pdf_blob)\<rparr>)
        ''https://h/secure/attachment/1/report.pdf'' ''report.pdf'' None False None)
        = [LowLevelFirst True, SameOrigin False]"
    by (simp add: cascade_defs dead_network_def ok_page_def pdf_blob_def)
  then show ?thesis by simp
qed

section \<open>Properties of the attachment names\<close>

text \<open>
  The loop returns a name whose path is not among the paths assigned so far, so the paths
  of a batch are distinct. The iteration of the extraction through the API adds no path.
\<close>

lemma unique_loop_fresh:
  "dir @ unique_loop paths dir fname finalFilename counter \<notin> set paths"
proof (induction paths dir fname finalFilename counter rule: unique_loop.induct)
  case (1 paths dir fname finalFilename counter)
  then show ?case
    by (subst unique_loop.simps) simp
qed

lemma dom_attach_distinct: "distinct paths \<Longrightarrow> distinct (dom_attach ticketKey paths f)"
  by (simp add: dom_attach_def Let_def unique_loop_fresh)

lemma api_attach_unchanged: "api_attach ticketKey paths f = paths"
  by (simp add: api_attach_def api_body_def)

lemma foldl_dom_attach_distinct:
  "distinct paths \<Longrightarrow> distinct (foldl (dom_attach ticketKey) paths files)"
  by (induction files arbitrary: paths) (simp_all add: dom_attach_distinct)

lemma url_ext_design_notes:
  "url_ext (att_url design_notes) = ''net/rest/api/3/attachment/content/10001''"
  by (simp add: design_notes_def url_ext_def last_piece_def first_piece_def)

lemma clean_design_notes: "trim (clean (att_name design_notes)) = ''Design notes''"
  by (simp add: design_notes_def clean_def invalid_chars_def trim_def is_space_def)

lemma dom_filename_design_notes:
  "dom_filename (att_name design_notes) (att_url design_notes)
   = ''Design notes.net/rest/api/3/attachment/content/10001''"
  by (simp add: dom_filename_def url_ext_design_notes clean_design_notes Let_def
        endsWith_def toLowerCase_def lower_char_def has_extension_def last_piece_def
        is_alnum_def)

text \<open>
  Claim C9 (attachment names). In the extraction from the page the extension taken from
  the URL is appended after the invalid characters have been replaced, and it is not
  cleaned itself: for the attachment \<open>design_notes\<close> the assigned name contains the path
  separator \<^verbatim>\<open>/\<close>, one of the characters the code replaces in the name. The extraction
  through the API names no file: its iteration for the same attachment adds no path.
\<close>

theorem unsanitized_extension:
  "dom_attach ''PROJ-7'' [] design_notes
     = [''PROJ-7/raw/attachments/Design notes.net/rest/api/3/attachment/content/10001'']
   \<and> CHR ''/'' \<in> set invalid_chars
   \<and> CHR ''/'' \<in> set (dom_filename (att_name design_notes) (att_url design_notes))
   \<and> api_attach ''PROJ-7'' [] design_notes = []"
  by (simp add: dom_attach_def api_attach_def api_body_def dom_filename_design_notes
        clean_design_notes attachments_dir_def unique_loop.simps invalid_chars_def Let_def)

end
